theory Spec2Isabelle
  imports Complex_Main "HOL-Library.Multiset" "HOL-Library.List_Lexorder" "HOL-Library.Char_ord"
begin

section \<open>Affiliate payouts of yearn/affiliates.py\<close>

text \<open>
  The module computes, for every partner, a ledger with one row per wrapper and fee
  event, a fee tier per block from the partner's combined balance, and monthly payouts
  per vault. The embedding follows the source function by function. What the source
  asks of its collaborators (event logs, contract calls, the price oracle, block
  timestamps, the calendar) is the record \<open>env\<close>; what it asks of pandas is written
  out as functions on lists and frames.
\<close>

subsection \<open>Python errors and float64 values\<close>

datatype py_error = ValueError | ZeroDivisionError | IndexError | KeyError

text \<open>
  A float64 is a finite value, one of the two infinities, or NaN. Finite arithmetic is
  exact real arithmetic: rounding, overflow and the sign of zero are not modelled. The
  special values follow IEEE 754, which is what numpy computes for a float64 column
  (a division by zero there gives an infinity or NaN, never an exception).
\<close>

datatype fl = Fin real | PInf | NInf | NaN

definition inf_of_sign :: "bool \<Rightarrow> fl" where
  "inf_of_sign positive = (if positive then PInf else NInf)"

fun fadd :: "fl \<Rightarrow> fl \<Rightarrow> fl" where
  "fadd (Fin a) (Fin b) = Fin (a + b)"
| "fadd NaN y = NaN"
| "fadd x NaN = NaN"
| "fadd PInf NInf = NaN"
| "fadd NInf PInf = NaN"
| "fadd PInf y = PInf"
| "fadd x PInf = PInf"
| "fadd NInf y = NInf"
| "fadd x NInf = NInf"

fun fmul :: "fl \<Rightarrow> fl \<Rightarrow> fl" where
  "fmul (Fin a) (Fin b) = Fin (a * b)"
| "fmul NaN y = NaN"
| "fmul x NaN = NaN"
| "fmul (Fin a) PInf = (if a = 0 then NaN else inf_of_sign (0 < a))"
| "fmul (Fin a) NInf = (if a = 0 then NaN else inf_of_sign (a < 0))"
| "fmul PInf (Fin b) = (if b = 0 then NaN else inf_of_sign (0 < b))"
| "fmul NInf (Fin b) = (if b = 0 then NaN else inf_of_sign (b < 0))"
| "fmul PInf PInf = PInf"
| "fmul NInf NInf = PInf"
| "fmul PInf NInf = NInf"
| "fmul NInf PInf = NInf"

fun fdiv :: "fl \<Rightarrow> fl \<Rightarrow> fl" where
  "fdiv (Fin a) (Fin b) =
     (if b = 0 then (if a = 0 then NaN else inf_of_sign (0 < a)) else Fin (a / b))"
| "fdiv NaN y = NaN"
| "fdiv x NaN = NaN"
| "fdiv (Fin a) PInf = Fin 0"
| "fdiv (Fin a) NInf = Fin 0"
| "fdiv PInf (Fin b) = inf_of_sign (0 \<le> b)"
| "fdiv NInf (Fin b) = inf_of_sign (b < 0)"
| "fdiv x y = NaN"

text \<open>\<open>x < k\<close> for a float \<open>x\<close> and a Python int \<open>k\<close>: every comparison with NaN is false.\<close>

fun flt_int :: "fl \<Rightarrow> int \<Rightarrow> bool" where
  "flt_int (Fin a) k = (a < real_of_int k)"
| "flt_int NInf k = True"
| "flt_int PInf k = False"
| "flt_int NaN k = False"

text \<open>
  The sum of pandas (\<open>sum\<close> of a group, of a row, of a resampling bin): NaN entries are
  skipped, the others are added from 0, so the sum of no entries is 0.
\<close>

fun nansum_from :: "fl \<Rightarrow> fl list \<Rightarrow> fl" where
  "nansum_from acc [] = acc"
| "nansum_from acc (x # xs) =
     (if x = NaN then nansum_from acc xs else nansum_from (fadd acc x) xs)"

definition nansum :: "fl list \<Rightarrow> fl" where
  "nansum xs = nansum_from (Fin 0) xs"

subsection \<open>The tier table and \<open>get_tier\<close>\<close>

text \<open>
  \<open>TIERS\<close> is the dict of the source, in the order it is written.
  \<open>bisect_right\<close> is the loop of Python's \<open>bisect\<close> module; \<open>py_getitem\<close> is list
  indexing, where a negative index counts from the end.
\<close>

definition TIERS :: "(int \<times> real) list" where
  "TIERS =
    [(0, 0),
     (1000000, 10 / 100),
     (5000000, 15 / 100),
     (10000000, 20 / 100),
     (50000000, 25 / 100),
     (100000000, 30 / 100),
     (200000000, 35 / 100),
     (400000000, 40 / 100),
     (700000000, 45 / 100),
     (1000000000, 5 / 10)]"

function bisect_loop :: "int list \<Rightarrow> fl \<Rightarrow> nat \<Rightarrow> nat \<Rightarrow> nat" where
  "bisect_loop a x lo hi =
     (if lo < hi then
        (let mid = (lo + hi) div 2 in
         if flt_int x (a ! mid) then bisect_loop a x lo mid
         else bisect_loop a x (mid + 1) hi)
      else lo)"
  by pat_completeness auto
termination
  by (relation "measure (\<lambda>(a, x, lo, hi). hi - lo)") auto

definition bisect_right :: "int list \<Rightarrow> fl \<Rightarrow> nat" where
  "bisect_right a x = bisect_loop a x 0 (length a)"

definition py_getitem :: "'a list \<Rightarrow> int \<Rightarrow> py_error + 'a" where
  "py_getitem xs i =
     (if 0 \<le> i \<and> i < int (length xs) then Inr (xs ! nat i)
      else if i < 0 \<and> - int (length xs) \<le> i then Inr (xs ! nat (int (length xs) + i))
      else Inl IndexError)"

definition dict_getitem :: "('k \<times> 'v) list \<Rightarrow> 'k \<Rightarrow> py_error + 'v" where
  "dict_getitem d k = (case map_of d k of None \<Rightarrow> Inl KeyError | Some v \<Rightarrow> Inr v)"

definition get_tier :: "fl \<Rightarrow> py_error + real" where
  "get_tier amount =
     (let keys = sort (map fst TIERS);
          index = int (bisect_right keys amount) - 1
      in case py_getitem keys index of
           Inl e \<Rightarrow> Inl e
         | Inr k \<Rightarrow> dict_getitem TIERS k)"

subsection \<open>The collaborators\<close>

text \<open>
  \<open>fee_logs a\<close> are the decoded Transfer logs from vault \<open>a\<close> to its rewards address,
  as (block number, value), in the order of the log source; \<open>vault_scale a\<close> is
  \<open>Vault.from_address(a).scale\<close>; \<open>balanceOf v w b\<close> and \<open>totalSupply v b\<close> are the
  contract calls at block \<open>b\<close>. Values, balances and supplies are unsigned integers.
  \<open>get_price\<close> is the oracle, taken to return a finite number.
  \<open>get_block_timestamp\<close> gives seconds; \<open>month_of\<close> is the calendar month of a time,
  counted from some epoch, which is how pandas bins \<open>resample('1M')\<close>. The calls
  themselves are taken to return: a failure of the network is not modelled.
\<close>

type_synonym address = string

record env =
  fee_logs :: "address \<Rightarrow> (nat \<times> nat) list"
  vault_scale :: "address \<Rightarrow> nat"
  balanceOf :: "address \<Rightarrow> address \<Rightarrow> nat \<Rightarrow> nat"
  totalSupply :: "address \<Rightarrow> nat \<Rightarrow> nat"
  get_price :: "address \<Rightarrow> nat \<Rightarrow> real"
  get_block_timestamp :: "nat \<Rightarrow> nat"
  month_of :: "nat \<Rightarrow> nat"

subsection \<open>Wrapper and Partner\<close>

record Wrapper =
  w_name :: string
  w_vault :: address
  w_wrapper :: address

record Partner =
  p_name :: string
  p_wrappers :: "Wrapper list"
  p_treasury :: "string option"

text \<open>
  A row of a wrapper's frame, with the columns of the source; \<open>block\<close> is the index.
  The columns that are products of finite numbers are reals, those that come out of a
  division are floats.
\<close>

record wrap_row =
  block :: nat
  timestamp :: nat
  protocol_fee :: real
  balance :: real
  total_supply :: real
  vault_price :: real
  balance_usd :: real
  share :: fl
  payout_base :: fl
  wrapper :: address
  vault :: address

record ledger_row = wrap_row +
  tier :: fl
  payout :: fl

record payout_row =
  po_timestamp :: nat
  po_partner :: string
  po_token :: address
  po_treasury :: "string option"
  po_amount :: fl

text \<open>
  The division by \<open>vault.scale\<close> of lines 61, 76 and 81, Python's \<open>int / int\<close> over
  a list: the first division by a zero scale raises, so an empty list raises nothing.
  The quotient of two unsigned 256-bit integers is a finite float.
\<close>

definition scaled :: "env \<Rightarrow> address \<Rightarrow> nat list \<Rightarrow> py_error + real list" where
  "scaled c v raws =
     (if raws \<noteq> [] \<and> vault_scale c v = 0 then Inl ZeroDivisionError
      else Inr (map (\<lambda>n. real n / real (vault_scale c v)) raws))"

text \<open>A dict keeps a key at the place of its first insertion and the last value stored.\<close>

fun dict_setitem :: "('k \<times> 'v) list \<Rightarrow> 'k \<Rightarrow> 'v \<Rightarrow> ('k \<times> 'v) list" where
  "dict_setitem [] k v = [(k, v)]"
| "dict_setitem ((k', v') # d) k v =
     (if k' = k then (k', v) # d else (k', v') # dict_setitem d k v)"

definition dict_of_items :: "('k \<times> 'v) list \<Rightarrow> ('k \<times> 'v) list" where
  "dict_of_items kvs = fold (\<lambda>(k, v) d. dict_setitem d k v) kvs []"

definition get_protocol_fees :: "env \<Rightarrow> address \<Rightarrow> py_error + (nat \<times> real) list" where
  "get_protocol_fees c a =
     (case scaled c a (map snd (fee_logs c a)) of
        Inl e \<Rightarrow> Inl e
      | Inr vals \<Rightarrow> Inr (dict_of_items (zip (map fst (fee_logs c a)) vals)))"

definition protocol_fees :: "env \<Rightarrow> Wrapper \<Rightarrow> py_error + (nat \<times> real) list" where
  "protocol_fees c w = get_protocol_fees c (w_vault w)"

definition balances :: "env \<Rightarrow> Wrapper \<Rightarrow> nat list \<Rightarrow> py_error + real list" where
  "balances c w blocks =
     scaled c (w_vault w) (map (balanceOf c (w_vault w) (w_wrapper w)) blocks)"

definition total_supplies :: "env \<Rightarrow> Wrapper \<Rightarrow> nat list \<Rightarrow> py_error + real list" where
  "total_supplies c w blocks =
     scaled c (w_vault w) (map (totalSupply c (w_vault w)) blocks)"

definition vault_prices :: "env \<Rightarrow> Wrapper \<Rightarrow> nat list \<Rightarrow> real list" where
  "vault_prices c w blocks = map (get_price c (w_vault w)) blocks"

definition get_timestamps :: "env \<Rightarrow> nat list \<Rightarrow> nat list" where
  "get_timestamps c blocks = map (get_block_timestamp c) blocks"

subsection \<open>The frame of one wrapper\<close>

text \<open>
  A row of the frame of lines 100 to 114: the six columns that are read, and
  \<open>balance_usd\<close>, \<open>share\<close>, \<open>payout_base\<close>, \<open>wrapper\<close> and \<open>vault\<close> computed from
  them. The division of two float columns is the division of numpy.
\<close>

definition make_row ::
  "Wrapper \<Rightarrow> nat \<times> nat \<times> real \<times> real \<times> real \<times> real \<Rightarrow> wrap_row" where
  "make_row w = (\<lambda>(b, ts, fee, bal, supply, price).
     (let sh = fdiv (Fin bal) (Fin supply) in
      \<lparr> block = b, timestamp = ts, protocol_fee = fee, balance = bal,
        total_supply = supply, vault_price = price,
        balance_usd = bal * price,
        share = sh,
        payout_base = fmul (fmul sh (Fin fee)) (Fin (65 / 100)),
        wrapper = w_wrapper w, vault = w_vault w \<rparr>))"

text \<open>
  The body of the loop of \<open>Partner.process\<close> (lines 98 to 116). Unpacking
  \<open>zip(*protocol_fees.items())\<close> into two names raises ValueError when the dict is
  empty. The loop stops at the first wrapper that raises.
\<close>

definition wrapper_frame :: "env \<Rightarrow> Wrapper \<Rightarrow> py_error + wrap_row list" where
  "wrapper_frame c w =
     (case protocol_fees c w of
        Inl e \<Rightarrow> Inl e
      | Inr fees \<Rightarrow>
          if fees = [] then Inl ValueError
          else
            (let blocks = map fst fees; pfees = map snd fees; stamps = get_timestamps c blocks in
             case balances c w blocks of
               Inl e \<Rightarrow> Inl e
             | Inr bals \<Rightarrow>
                 (case total_supplies c w blocks of
                    Inl e \<Rightarrow> Inl e
                  | Inr sups \<Rightarrow>
                      Inr (map (make_row w)
                        (zip blocks (zip stamps (zip pfees (zip bals
                          (zip sups (vault_prices c w blocks))))))))))"

fun wrapper_frames :: "env \<Rightarrow> Wrapper list \<Rightarrow> py_error + wrap_row list list" where
  "wrapper_frames c [] = Inr []"
| "wrapper_frames c (w # ws) =
     (case wrapper_frame c w of
        Inl e \<Rightarrow> Inl e
      | Inr f \<Rightarrow>
          (case wrapper_frames c ws of
             Inl e \<Rightarrow> Inl e
           | Inr fs \<Rightarrow> Inr (f # fs)))"

subsection \<open>The operations of pandas\<close>

text \<open>\<open>pd.concat\<close> of no frames raises ValueError; otherwise the rows follow one another.\<close>

definition pd_concat :: "'r list list \<Rightarrow> py_error + 'r list" where
  "pd_concat fs = (if fs = [] then Inl ValueError else Inr (concat fs))"

text \<open>
  A frame has an index, columns and a cell for every pair; a missing cell is NaN.
  \<open>pivot_table rows val idx col\<close> with the aggregation \<open>sum\<close> groups the rows by
  (index key, column key) and sums \<open>val\<close> over each group; groups whose sum is NaN are
  dropped; a pair with no group is a missing cell. Index and columns are sorted.
\<close>

record ('i, 'c) frame =
  index :: "'i list"
  columns :: "'c list"
  cells :: "'i \<Rightarrow> 'c \<Rightarrow> fl"

definition group_sum ::
  "'r list \<Rightarrow> ('r \<Rightarrow> fl) \<Rightarrow> ('r \<Rightarrow> 'i) \<Rightarrow> ('r \<Rightarrow> 'c) \<Rightarrow> 'i \<Rightarrow> 'c \<Rightarrow> fl" where
  "group_sum rows val idx col i c =
     (let g = filter (\<lambda>r. idx r = i \<and> col r = c) rows
      in if g = [] then NaN else nansum (map val g))"

definition pivot_table ::
  "'r list \<Rightarrow> ('r \<Rightarrow> fl) \<Rightarrow> ('r \<Rightarrow> 'i::linorder) \<Rightarrow> ('r \<Rightarrow> 'c::linorder) \<Rightarrow> ('i, 'c) frame" where
  "pivot_table rows val idx col =
     (let agged = filter (\<lambda>r. group_sum rows val idx col (idx r) (col r) \<noteq> NaN) rows
      in \<lparr> index = sort (remdups (map idx agged)),
           columns = sort (remdups (map col agged)),
           cells = group_sum rows val idx col \<rparr>)"

text \<open>
  \<open>ffill\<close> walks down the index and carries, for every column, the last cell that was
  not NaN into the NaN cells below it.
\<close>

fun ffill_rows :: "('c \<Rightarrow> fl) \<Rightarrow> 'i list \<Rightarrow> ('i \<Rightarrow> 'c \<Rightarrow> fl) \<Rightarrow> ('i \<times> ('c \<Rightarrow> fl)) list" where
  "ffill_rows prev [] cs = []"
| "ffill_rows prev (i # is) cs =
     (let r = (\<lambda>c. if cs i c = NaN then prev c else cs i c)
      in (i, r) # ffill_rows r is cs)"

definition ffill :: "('i, 'c) frame \<Rightarrow> ('i, 'c) frame" where
  "ffill f =
     (let filled = ffill_rows (\<lambda>c. NaN) (index f) (cells f)
      in f\<lparr> cells := (\<lambda>i. case map_of filled i of None \<Rightarrow> (\<lambda>c. NaN) | Some r \<Rightarrow> r) \<rparr>)"

definition sum_axis1 :: "('i, 'c) frame \<Rightarrow> ('i \<times> fl) list" where
  "sum_axis1 f = map (\<lambda>i. (i, nansum (map (cells f i) (columns f)))) (index f)"

text \<open>
  \<open>resample('1M').sum()\<close>: one bin for every month from the month of the first time of
  the index to the month of the last, also for the months in between that hold no
  time; each cell is the sum of the column over the times of the month. A calendar
  month is monotone in the time, so the first and the last month are the least and the
  greatest month of the index.
\<close>

definition resample_month_sum :: "(nat \<Rightarrow> nat) \<Rightarrow> (nat, 'c) frame \<Rightarrow> (nat, 'c) frame" where
  "resample_month_sum month f =
     (let months = map month (index f);
          bins = (if months = [] then [] else [Min (set months) ..< Suc (Max (set months))])
      in \<lparr> index = bins,
           columns = columns f,
           cells = (\<lambda>m c. nansum (map (\<lambda>t. cells f t c)
                                     (filter (\<lambda>t. month t = m) (index f)))) \<rparr>)"

text \<open>\<open>stack\<close> lists the cells row by row and leaves out the NaN cells.\<close>

definition stack :: "('i, 'c) frame \<Rightarrow> ('i \<times> 'c \<times> fl) list" where
  "stack f =
     concat (map (\<lambda>i. map (\<lambda>c. (i, c, cells f i c))
                         (filter (\<lambda>c. cells f i c \<noteq> NaN) (columns f)))
                 (index f))"

subsection \<open>Partner.process and Partner.export_payouts\<close>

text \<open>
  Line 123: the pivot of \<open>balance_usd\<close> by block and vault, filled forward and summed
  over the vaults; line 124 applies \<open>get_tier\<close> to every entry.
\<close>

definition total_balances :: "wrap_row list \<Rightarrow> (nat \<times> fl) list" where
  "total_balances partner =
     sum_axis1 (ffill (pivot_table partner (\<lambda>r. Fin (balance_usd r)) block vault))"

fun apply_get_tier :: "(nat \<times> fl) list \<Rightarrow> py_error + (nat \<times> real) list" where
  "apply_get_tier [] = Inr []"
| "apply_get_tier ((b, amount) # rest) =
     (case get_tier amount of
        Inl e \<Rightarrow> Inl e
      | Inr t \<Rightarrow>
          (case apply_get_tier rest of
             Inl e \<Rightarrow> Inl e
           | Inr ts \<Rightarrow> Inr ((b, t) # ts)))"

text \<open>
  \<open>partner.join(tiers)\<close> is a left join on the block: every row keeps its place and
  gets the tier of its block, NaN when the block has none. The order of the rows of the
  joined frame is the order of the concatenation here; the general statements below
  speak of the rows as a set, or of sums over them, and do not depend on it.
\<close>

definition join_tier :: "(nat \<times> real) list \<Rightarrow> wrap_row \<Rightarrow> ledger_row" where
  "join_tier tiers r =
     (let t = (case map_of tiers (block r) of None \<Rightarrow> NaN | Some x \<Rightarrow> Fin x)
      in wrap_row.extend r (ledger_row.fields t (fmul (payout_base r) t)))"

text \<open>
  Lines 140 to 151: the pivot of \<open>payout\<close> by timestamp and vault, summed by month,
  stacked to one row per month and vault, with the name and treasury of the partner.
  A month is written as its number, for the timestamp of its last day.
\<close>

definition export_payouts :: "env \<Rightarrow> Partner \<Rightarrow> ledger_row list \<Rightarrow> payout_row list" where
  "export_payouts c self partner =
     map (\<lambda>(ts, token, amount).
            \<lparr> po_timestamp = ts, po_partner = p_name self, po_token = token,
              po_treasury = p_treasury self, po_amount = amount \<rparr>)
         (stack (resample_month_sum (month_of c) (pivot_table partner payout timestamp vault)))"

text \<open>
  Lines 94 to 138, without the files and plots it writes: the result is the ledger
  and the payouts, or the error raised on the way.
\<close>

definition process :: "env \<Rightarrow> Partner \<Rightarrow> py_error + (ledger_row list \<times> payout_row list)" where
  "process c self =
     (case wrapper_frames c (p_wrappers self) of
        Inl e \<Rightarrow> Inl e
      | Inr wrappers \<Rightarrow>
          (case pd_concat wrappers of
             Inl e \<Rightarrow> Inl e
           | Inr partner \<Rightarrow>
               (case apply_get_tier (total_balances partner) of
                  Inl e \<Rightarrow> Inl e
                | Inr tiers \<Rightarrow>
                    (let ledger = map (join_tier tiers) partner
                     in Inr (ledger, export_payouts c self ledger)))))"

subsection \<open>Notions used in the statements and proofs\<close>

text \<open>The finite part of a float, and the floats that are not negative.\<close>

fun fin_part :: "fl \<Rightarrow> real" where
  "fin_part (Fin a) = a"
| "fin_part x = 0"

fun nonneg_fl :: "fl \<Rightarrow> bool" where
  "nonneg_fl (Fin a) = (0 \<le> a)"
| "nonneg_fl PInf = True"
| "nonneg_fl NInf = False"
| "nonneg_fl NaN = True"

text \<open>
  The cumulative balance in the words of the specification: a vault counts at block \<open>b\<close>
  with the sum of its \<open>balance_usd\<close> at the last block, at or before \<open>b\<close>, at which it
  has a row, and with nothing when it has no row up to \<open>b\<close>; the vaults are added up.
\<close>

definition last_observed :: "wrap_row list \<Rightarrow> nat \<Rightarrow> address \<Rightarrow> nat option" where
  "last_observed rows b v =
     (let bs = map block (filter (\<lambda>r. vault r = v \<and> block r \<le> b) rows)
      in if bs = [] then None else Some (Max (set bs)))"

definition vault_balance_at :: "wrap_row list \<Rightarrow> nat \<Rightarrow> address \<Rightarrow> real" where
  "vault_balance_at rows b v =
     sum_list (map balance_usd (filter (\<lambda>r. block r = b \<and> vault r = v) rows))"

definition cumulative_balance :: "wrap_row list \<Rightarrow> nat \<Rightarrow> real" where
  "cumulative_balance rows b =
     sum_list (map (\<lambda>v. case last_observed rows b v of
                          None \<Rightarrow> 0
                        | Some b' \<Rightarrow> vault_balance_at rows b' v)
                   (sort (remdups (map vault rows))))"

text \<open>
  The exported amount in the words of the specification: the sum of the payouts of
  the ledger rows of a month and vault; and the months from the first to the last.
\<close>

definition monthly_amount :: "(nat \<Rightarrow> nat) \<Rightarrow> ledger_row list \<Rightarrow> nat \<Rightarrow> address \<Rightarrow> fl" where
  "monthly_amount month ledger m v =
     nansum (map payout (filter (\<lambda>r. month (timestamp r) = m \<and> vault r = v) ledger))"

definition month_bins :: "(nat \<Rightarrow> nat) \<Rightarrow> ledger_row list \<Rightarrow> nat list" where
  "month_bins month ledger =
     (if ledger = [] then []
      else [Min (set (map (\<lambda>r. month (timestamp r)) ledger)) ..<
            Suc (Max (set (map (\<lambda>r. month (timestamp r)) ledger)))])"

text \<open>The two parts of a result of \<open>process\<close>; empty when it raised.\<close>

definition ledger_of :: "py_error + (ledger_row list \<times> payout_row list) \<Rightarrow> ledger_row list" where
  "ledger_of res = (case res of Inl e \<Rightarrow> [] | Inr (l, po) \<Rightarrow> l)"

definition payouts_of :: "py_error + (ledger_row list \<times> payout_row list) \<Rightarrow> payout_row list" where
  "payouts_of res = (case res of Inl e \<Rightarrow> [] | Inr (l, po) \<Rightarrow> po)"

subsection \<open>A small chain, for concrete runs\<close>

text \<open>
  Four vaults with fee events and a vault E without, scale 1, one price for all; times
  are the block numbers and a month has three of them. Vault Y is held entirely by
  its wrapper; vaults Z and Q have supply 0, with balance 0 and 5.
\<close>

definition demo_env :: "real \<Rightarrow> env" where
  "demo_env price =
     \<lparr> fee_logs = (\<lambda>a. if a = ''X'' then [(1, 10), (5, 20)]
                        else if a = ''Y'' then [(5, 7)]
                        else if a = ''Z'' then [(3, 4)]
                        else if a = ''Q'' then [(2, 1)]
                        else []),
       vault_scale = (\<lambda>a. 1),
       balanceOf = (\<lambda>v w b. if v = ''X'' then (if b = 1 then 100 else 200)
                             else if v = ''Y'' then 50
                             else if v = ''Q'' then 5
                             else 0),
       totalSupply = (\<lambda>v b. if v = ''X'' then 1000 else if v = ''Y'' then 50 else 0),
       get_price = (\<lambda>v b. price),
       get_block_timestamp = (\<lambda>b. b),
       month_of = (\<lambda>t. t div 3) \<rparr>"

definition wrapper_for :: "address \<Rightarrow> Wrapper" where
  "wrapper_for v = \<lparr> w_name = v, w_vault = v, w_wrapper = ''W'' @ v \<rparr>"

definition demo_partner :: "address list \<Rightarrow> Partner" where
  "demo_partner vs = \<lparr> p_name = ''demo'', p_wrappers = map wrapper_for vs, p_treasury = None \<rparr>"

definition demo_rows :: "real \<Rightarrow> address list \<Rightarrow> wrap_row list" where
  "demo_rows price vs =
     (case wrapper_frames (demo_env price) (map wrapper_for vs) of
        Inl e \<Rightarrow> []
      | Inr fs \<Rightarrow> concat fs)"

definition demo_ledger :: "real \<Rightarrow> address list \<Rightarrow> ledger_row list" where
  "demo_ledger price vs = ledger_of (process (demo_env price) (demo_partner vs))"

definition demo_payouts :: "real \<Rightarrow> address list \<Rightarrow> payout_row list" where
  "demo_payouts price vs = payouts_of (process (demo_env price) (demo_partner vs))"

section \<open>The tier table\<close>

lemma sorted_TIERS_keys:
  "sort (map fst TIERS) =
     [0, 1000000, 5000000, 10000000, 50000000, 100000000, 200000000, 400000000,
      700000000, 1000000000]"
  by (simp add: TIERS_def)

text \<open>The search, run on the table: a closed form of \<open>get_tier\<close> on finite amounts.\<close>

lemma get_tier_Fin:
  "get_tier (Fin a) =
     Inr (if a < 0 then 5 / 10
          else if a < 1000000 then 0
          else if a < 5000000 then 10 / 100
          else if a < 10000000 then 15 / 100
          else if a < 50000000 then 20 / 100
          else if a < 100000000 then 25 / 100
          else if a < 200000000 then 30 / 100
          else if a < 400000000 then 35 / 100
          else if a < 700000000 then 40 / 100
          else if a < 1000000000 then 45 / 100
          else 5 / 10)"
  unfolding get_tier_def sorted_TIERS_keys bisect_right_def
  by (simp add: bisect_loop.simps py_getitem_def dict_getitem_def TIERS_def)

lemma get_tier_special:
  "get_tier NaN = Inr (5 / 10)" "get_tier PInf = Inr (5 / 10)" "get_tier NInf = Inr (5 / 10)"
  unfolding get_tier_def sorted_TIERS_keys bisect_right_def
  by (simp_all add: bisect_loop.simps py_getitem_def dict_getitem_def TIERS_def)

lemma get_tier_total: "\<exists>t. get_tier x = Inr t \<and> 0 \<le> t \<and> t \<le> 5 / 10"
proof (cases x)
  case (Fin a)
  show ?thesis unfolding Fin get_tier_Fin by simp
next
  case PInf
  show ?thesis unfolding PInf by (rule exI[of _ "5 / 10"]) (simp add: get_tier_special)
next
  case NInf
  show ?thesis unfolding NInf by (rule exI[of _ "5 / 10"]) (simp add: get_tier_special)
next
  case NaN
  show ?thesis unfolding NaN by (rule exI[of _ "5 / 10"]) (simp add: get_tier_special)
qed

text \<open>
  C3: for every amount \<open>a \<ge> 0\<close>, \<open>get_tier\<close> returns the rate of the greatest threshold
  of the table that is at most \<open>a\<close>; below the smallest positive threshold this is the
  rate at threshold 0; at 1_000_000 it is 0.10 and at 999_999 it is 0.
\<close>

theorem get_tier_greatest_threshold:
  "0 \<le> a \<Longrightarrow>
   (\<exists>k r. (k, r) \<in> set TIERS \<and> real_of_int k \<le> a \<and>
           (\<forall>k' r'. (k', r') \<in> set TIERS \<and> real_of_int k' \<le> a \<longrightarrow> k' \<le> k) \<and>
           get_tier (Fin a) = Inr r) \<and>
   (a < 1000000 \<longrightarrow> get_tier (Fin a) = dict_getitem TIERS 0) \<and>
   get_tier (Fin 1000000) = Inr (10 / 100) \<and>
   get_tier (Fin 999999) = Inr 0"
proof (intro conjI)
  assume nonneg: "0 \<le> a"
  consider "a < 1000000" | "1000000 \<le> a" "a < 5000000" | "5000000 \<le> a" "a < 10000000"
    | "10000000 \<le> a" "a < 50000000" | "50000000 \<le> a" "a < 100000000"
    | "100000000 \<le> a" "a < 200000000" | "200000000 \<le> a" "a < 400000000"
    | "400000000 \<le> a" "a < 700000000" | "700000000 \<le> a" "a < 1000000000"
    | "1000000000 \<le> a"
    by linarith
  then show "\<exists>k r. (k, r) \<in> set TIERS \<and> real_of_int k \<le> a \<and>
           (\<forall>k' r'. (k', r') \<in> set TIERS \<and> real_of_int k' \<le> a \<longrightarrow> k' \<le> k) \<and>
           get_tier (Fin a) = Inr r"
  proof cases
    case 1
    show ?thesis
      by (rule exI[of _ 0], rule exI[of _ 0]) (use 1 nonneg in \<open>auto simp: get_tier_Fin TIERS_def\<close>)
  next
    case 2
    show ?thesis
      by (rule exI[of _ 1000000], rule exI[of _ "10 / 100"])
        (use 2 in \<open>auto simp: get_tier_Fin TIERS_def\<close>)
  next
    case 3
    show ?thesis
      by (rule exI[of _ 5000000], rule exI[of _ "15 / 100"])
        (use 3 in \<open>auto simp: get_tier_Fin TIERS_def\<close>)
  next
    case 4
    show ?thesis
      by (rule exI[of _ 10000000], rule exI[of _ "20 / 100"])
        (use 4 in \<open>auto simp: get_tier_Fin TIERS_def\<close>)
  next
    case 5
    show ?thesis
      by (rule exI[of _ 50000000], rule exI[of _ "25 / 100"])
        (use 5 in \<open>auto simp: get_tier_Fin TIERS_def\<close>)
  next
    case 6
    show ?thesis
      by (rule exI[of _ 100000000], rule exI[of _ "30 / 100"])
        (use 6 in \<open>auto simp: get_tier_Fin TIERS_def\<close>)
  next
    case 7
    show ?thesis
      by (rule exI[of _ 200000000], rule exI[of _ "35 / 100"])
        (use 7 in \<open>auto simp: get_tier_Fin TIERS_def\<close>)
  next
    case 8
    show ?thesis
      by (rule exI[of _ 400000000], rule exI[of _ "40 / 100"])
        (use 8 in \<open>auto simp: get_tier_Fin TIERS_def\<close>)
  next
    case 9
    show ?thesis
      by (rule exI[of _ 700000000], rule exI[of _ "45 / 100"])
        (use 9 in \<open>auto simp: get_tier_Fin TIERS_def\<close>)
  next
    case 10
    show ?thesis
      by (rule exI[of _ 1000000000], rule exI[of _ "5 / 10"])
        (use 10 in \<open>auto simp: get_tier_Fin TIERS_def\<close>)
  qed
  show "a < 1000000 \<longrightarrow> get_tier (Fin a) = dict_getitem TIERS 0"
    using nonneg by (simp add: get_tier_Fin dict_getitem_def TIERS_def)
  show "get_tier (Fin 1000000) = Inr (10 / 100)"
    by (simp add: get_tier_Fin)
  show "get_tier (Fin 999999) = Inr 0"
    by (simp add: get_tier_Fin)
qed

theorem get_tier_greatest_threshold_witness:
  "(0::real) \<le> 2500000 \<and>
   (\<exists>k r. (k, r) \<in> set TIERS \<and> real_of_int k \<le> 2500000 \<and>
           (\<forall>k' r'. (k', r') \<in> set TIERS \<and> real_of_int k' \<le> 2500000 \<longrightarrow> k' \<le> k) \<and>
           get_tier (Fin 2500000) = Inr r) \<and>
   get_tier (Fin 2500000) = Inr (10 / 100) \<and>
   (0::real) \<le> 999999 \<and> (999999::real) < 1000000 \<and>
   get_tier (Fin 999999) = dict_getitem TIERS 0 \<and>
   dict_getitem TIERS 0 = Inr 0"
proof -
  have h: "(0::real) \<le> 2500000" and h': "(0::real) \<le> 999999" and lt: "(999999::real) < 1000000"
    by simp_all
  have v: "get_tier (Fin 2500000) = Inr (10 / 100)" by (simp add: get_tier_Fin)
  have z: "dict_getitem TIERS 0 = Inr 0" by (simp add: dict_getitem_def TIERS_def)
  from get_tier_greatest_threshold[OF h'] lt
  have "get_tier (Fin 999999) = dict_getitem TIERS 0" by blast
  with get_tier_greatest_threshold[OF h] h h' lt v z show ?thesis by blast
qed

text \<open>
  C8: over the configured table \<open>get_tier\<close> is monotone on the amounts from 0 on: for
  \<open>0 \<le> a \<le> b\<close> both calls return a rate, and the rate of \<open>a\<close> is at most that of \<open>b\<close>.
\<close>

theorem get_tier_monotone:
  "0 \<le> a \<Longrightarrow> a \<le> b \<Longrightarrow>
   \<exists>ra rb. get_tier (Fin a) = Inr ra \<and> get_tier (Fin b) = Inr rb \<and> ra \<le> rb"
  by (simp add: get_tier_Fin)

theorem get_tier_monotone_witness:
  "(0::real) \<le> 999999 \<and> (999999::real) \<le> 1000000 \<and>
   (\<exists>ra rb. get_tier (Fin 999999) = Inr ra \<and> get_tier (Fin 1000000) = Inr rb \<and> ra \<le> rb)"
proof -
  have h1: "(0::real) \<le> 999999" and h2: "(999999::real) \<le> 1000000" by simp_all
  from get_tier_monotone[OF h1 h2] h1 h2 show ?thesis by blast
qed

text \<open>
  C10: for every negative amount the search returns position 0, the index is -1, which
  selects the last of the sorted keys, and \<open>get_tier\<close> returns 0.5, the rate of the
  largest threshold; it neither raises nor returns the rate at threshold 0.
\<close>

theorem get_tier_negative:
  "a < 0 \<Longrightarrow>
   bisect_right (sort (map fst TIERS)) (Fin a) = 0 \<and>
   py_getitem (sort (map fst TIERS)) (- 1) = Inr 1000000000 \<and>
   dict_getitem TIERS 1000000000 = Inr (5 / 10) \<and>
   get_tier (Fin a) = Inr (5 / 10) \<and>
   get_tier (Fin a) \<noteq> dict_getitem TIERS 0"
  unfolding sorted_TIERS_keys bisect_right_def
  by (simp add: bisect_loop.simps get_tier_Fin py_getitem_def dict_getitem_def TIERS_def)

theorem get_tier_negative_witness:
  "(- 1::real) < 0 \<and> get_tier (Fin (- 1)) = Inr (5 / 10) \<and>
   get_tier (Fin (- 1)) \<noteq> dict_getitem TIERS 0"
proof -
  have h: "(- 1::real) < 0" by simp
  from get_tier_negative[OF h] h show ?thesis by blast
qed

section \<open>float64 sums\<close>

lemma nansum_from_PInf:
  "\<forall>x\<in>set xs. x \<noteq> NInf \<Longrightarrow> nansum_from PInf xs = PInf"
proof (induction xs)
  case Nil
  then show ?case by simp
next
  case (Cons x xs)
  then show ?case by (cases x) auto
qed

lemma nansum_from_Fin:
  "\<forall>x\<in>set xs. x \<noteq> NInf \<Longrightarrow>
   nansum_from (Fin a) xs =
     (if PInf \<in> set xs then PInf else Fin (a + sum_list (map fin_part xs)))"
proof (induction xs arbitrary: a)
  case Nil
  then show ?case by simp
next
  case (Cons x xs)
  then show ?case
    by (cases x) (auto simp: nansum_from_PInf)
qed

lemma nansum_no_ninf:
  "\<forall>x\<in>set xs. x \<noteq> NInf \<Longrightarrow>
   nansum xs = (if PInf \<in> set xs then PInf else Fin (sum_list (map fin_part xs)))"
  by (simp add: nansum_def nansum_from_Fin)

lemma nansum_map_Fin: "nansum (map (\<lambda>x. Fin (f x)) xs) = Fin (sum_list (map f xs))"
proof -
  have "nansum (map (\<lambda>x. Fin (f x)) xs) =
      Fin (sum_list (map fin_part (map (\<lambda>x. Fin (f x)) xs)))"
    by (subst nansum_no_ninf) auto
  then show ?thesis by (simp add: comp_def)
qed

lemma nonneg_nansum:
  assumes "\<forall>x\<in>set xs. nonneg_fl x"
  shows "nonneg_fl (nansum xs)" and "nansum xs \<noteq> NaN"
proof -
  have nn: "\<forall>x\<in>set xs. x \<noteq> NInf" using assms by auto
  have "0 \<le> sum_list (map fin_part xs)"
  proof (rule sum_list_nonneg)
    fix y assume "y \<in> set (map fin_part xs)"
    then obtain x where "x \<in> set xs" "y = fin_part x" by auto
    with assms show "0 \<le> y" by (cases x) auto
  qed
  then show "nonneg_fl (nansum xs)" "nansum xs \<noteq> NaN"
    by (simp_all add: nansum_no_ninf[OF nn])
qed

lemma carry_fold:
  "fold (\<lambda>j acc. if cs j = NaN then acc else cs j) js init =
     (if filter (\<lambda>j. cs j \<noteq> NaN) js = [] then init
      else cs (last (filter (\<lambda>j. cs j \<noteq> NaN) js)))"
  by (induction js rule: rev_induct) auto

lemma ffill_rows_map_of:
  "distinct js \<Longrightarrow> i \<in> set js \<Longrightarrow>
   map_of (ffill_rows prev js cs) i =
     Some (\<lambda>c. fold (\<lambda>j acc. if cs j c = NaN then acc else cs j c)
                  (takeWhile (\<lambda>j. j \<noteq> i) js @ [i]) (prev c))"
proof (induction js arbitrary: prev)
  case Nil
  then show ?case by simp
next
  case (Cons j js)
  show ?case
  proof (cases "j = i")
    case True
    then show ?thesis by (simp add: Let_def)
  next
    case False
    with Cons.prems have "distinct js" "i \<in> set js" by auto
    from Cons.IH[OF this] False show ?thesis
      by (simp add: Let_def)
  qed
qed

lemma ffill_rows_keys: "map fst (ffill_rows prev js cs) = js"
  by (induction js arbitrary: prev) (auto simp: Let_def)

lemma takeWhile_neq_sorted:
  "sorted js \<Longrightarrow> distinct js \<Longrightarrow> i \<in> set js \<Longrightarrow>
   takeWhile (\<lambda>j. j \<noteq> i) js @ [i] = filter (\<lambda>j. j \<le> i) js"
proof (induction js)
  case Nil
  then show ?case by simp
next
  case (Cons j js)
  show ?case
  proof (cases "j = i")
    case True
    with Cons.prems have "\<forall>k\<in>set js. \<not> k \<le> i" by auto
    then have "filter (\<lambda>j. j \<le> i) js = []" by (simp add: filter_empty_conv)
    with True show ?thesis by simp
  next
    case False
    with Cons.prems have "i \<in> set js" "j \<le> i" by auto
    with Cons False show ?thesis by simp
  qed
qed

lemma sorted_last_Max: "sorted xs \<Longrightarrow> xs \<noteq> [] \<Longrightarrow> last xs = Max (set xs)"
proof (induction xs)
  case Nil
  then show ?case by simp
next
  case (Cons x xs)
  show ?case
  proof (cases "xs = []")
    case True
    then show ?thesis by simp
  next
    case False
    with Cons have "last xs = Max (set xs)" by simp
    moreover from Cons.prems have "\<forall>y\<in>set xs. x \<le> y" by simp
    then have "max x (Max (set xs)) = Max (set xs)"
      using False by (simp add: max_def)
    ultimately show ?thesis using False by simp
  qed
qed

section \<open>The frames of the wrappers\<close>

lemma dict_setitem_not_Nil [simp]: "dict_setitem d k v \<noteq> []"
  by (cases d) (auto split: if_splits)

lemma fold_dict_setitem_not_Nil:
  "d \<noteq> [] \<Longrightarrow> fold (\<lambda>(k, v) d. dict_setitem d k v) kvs d \<noteq> []"
  by (induction kvs arbitrary: d) (auto split: prod.splits)

lemma dict_of_items_Nil_iff: "dict_of_items kvs = [] \<longleftrightarrow> kvs = []"
proof (cases kvs)
  case Nil
  then show ?thesis by (simp add: dict_of_items_def)
next
  case (Cons kv rest)
  then show ?thesis
    by (cases kv) (simp add: dict_of_items_def fold_dict_setitem_not_Nil)
qed

lemma zip_columns:
  "zip (map fst xs) (zip (map f (map fst xs)) (zip (map snd xs)
     (zip (map sc (map g (map fst xs))) (zip (map sc (map h (map fst xs))) (map p (map fst xs)))))) =
   map (\<lambda>(b, fee). (b, f b, fee, sc (g b), sc (h b), p b)) xs"
  by (induction xs) auto

lemma wrapper_frame_cases:
  "wrapper_frame c w =
     (if fee_logs c (w_vault w) = [] then Inl ValueError
      else if vault_scale c (w_vault w) = 0 then Inl ZeroDivisionError
      else Inr (map (\<lambda>(b, fee). make_row w
                  (b, get_block_timestamp c b, fee,
                   real (balanceOf c (w_vault w) (w_wrapper w) b) / real (vault_scale c (w_vault w)),
                   real (totalSupply c (w_vault w) b) / real (vault_scale c (w_vault w)),
                   get_price c (w_vault w) b))
              (dict_of_items (zip (map fst (fee_logs c (w_vault w)))
                 (map (\<lambda>n. real n / real (vault_scale c (w_vault w)))
                    (map snd (fee_logs c (w_vault w))))))))"
proof -
  let ?v = "w_vault w"
  let ?d = "dict_of_items (zip (map fst (fee_logs c ?v))
                 (map (\<lambda>n. real n / real (vault_scale c ?v)) (map snd (fee_logs c ?v))))"
  have d_nil: "?d = [] \<longleftrightarrow> fee_logs c ?v = []"
    by (simp add: dict_of_items_Nil_iff)
  show ?thesis
  proof (cases "fee_logs c ?v = []")
    case True
    then show ?thesis
      by (simp add: wrapper_frame_def protocol_fees_def get_protocol_fees_def scaled_def
          dict_of_items_def)
  next
    case logs: False
    show ?thesis
    proof (cases "vault_scale c ?v = 0")
      case True
      with logs show ?thesis
        by (simp add: wrapper_frame_def protocol_fees_def get_protocol_fees_def scaled_def)
    next
      case False
      with logs d_nil show ?thesis
        unfolding wrapper_frame_def protocol_fees_def get_protocol_fees_def scaled_def
          balances_def total_supplies_def vault_prices_def get_timestamps_def
        by (simp add: Let_def zip_columns del: map_map) (simp add: comp_def case_prod_unfold)
    qed
  qed
qed

lemma nonneg_fdiv: "0 \<le> a \<Longrightarrow> 0 \<le> b \<Longrightarrow> nonneg_fl (fdiv (Fin a) (Fin b))"
  by (simp add: inf_of_sign_def)

lemma nonneg_fmul: "nonneg_fl x \<Longrightarrow> nonneg_fl y \<Longrightarrow> nonneg_fl (fmul x y)"
  by (cases x; cases y) (auto simp: inf_of_sign_def)

lemma wrapper_frames_Inr_iff:
  "wrapper_frames c ws = Inr fs \<longleftrightarrow> list_all2 (\<lambda>w f. wrapper_frame c w = Inr f) ws fs"
proof (induction ws arbitrary: fs)
  case Nil
  then show ?case by auto
next
  case (Cons w ws)
  show ?case
  proof (cases "wrapper_frames c ws")
    case (Inl e)
    then have "\<not> list_all2 (\<lambda>w f. wrapper_frame c w = Inr f) ws gs" for gs
      using Cons.IH[of gs] by simp
    with Inl show ?thesis
      by (cases fs) (auto split: sum.splits)
  next
    case (Inr gs)
    then have "list_all2 (\<lambda>w f. wrapper_frame c w = Inr f) ws hs \<longleftrightarrow> hs = gs" for hs
      using Cons.IH[of hs] by auto
    with Inr show ?thesis
      by (cases fs) (auto split: sum.splits)
  qed
qed

lemma wrapper_frames_Inl_iff:
  "(\<exists>e. wrapper_frames c ws = Inl e) \<longleftrightarrow> (\<exists>w\<in>set ws. \<exists>e. wrapper_frame c w = Inl e)"
proof (induction ws)
  case Nil
  then show ?case by simp
next
  case (Cons w ws)
  then show ?case
    by (cases "wrapper_frame c w"; cases "wrapper_frames c ws") auto
qed

lemma apply_get_tier_eq:
  "apply_get_tier xs = Inr (map (\<lambda>(b, a). (b, projr (get_tier a))) xs)"
proof (induction xs)
  case Nil
  then show ?case by simp
next
  case (Cons x xs)
  obtain b a where x: "x = (b, a)" by (cases x)
  obtain t where "get_tier a = Inr t" using get_tier_total by blast
  with Cons x show ?case by simp
qed

lemma process_cases:
  "process c p =
     (case wrapper_frames c (p_wrappers p) of
        Inl e \<Rightarrow> Inl e
      | Inr fs \<Rightarrow>
          if fs = [] then Inl ValueError
          else
            (let ledger = map (join_tier (map (\<lambda>(b, a). (b, projr (get_tier a)))
                                            (total_balances (concat fs)))) (concat fs)
             in Inr (ledger, export_payouts c p ledger)))"
  by (simp add: process_def pd_concat_def apply_get_tier_eq Let_def split: sum.splits)

lemma join_tier_fields [simp]:
  "block (join_tier ts r) = block r"
  "timestamp (join_tier ts r) = timestamp r"
  "protocol_fee (join_tier ts r) = protocol_fee r"
  "balance (join_tier ts r) = balance r"
  "total_supply (join_tier ts r) = total_supply r"
  "vault_price (join_tier ts r) = vault_price r"
  "balance_usd (join_tier ts r) = balance_usd r"
  "share (join_tier ts r) = share r"
  "payout_base (join_tier ts r) = payout_base r"
  "wrapper (join_tier ts r) = wrapper r"
  "vault (join_tier ts r) = vault r"
  "tier (join_tier ts r) = (case map_of ts (block r) of None \<Rightarrow> NaN | Some x \<Rightarrow> Fin x)"
  "payout (join_tier ts r) =
     fmul (payout_base r) (case map_of ts (block r) of None \<Rightarrow> NaN | Some x \<Rightarrow> Fin x)"
  by (simp_all add: join_tier_def Let_def wrap_row.defs ledger_row.defs)

lemma truncate_join_tier [simp]: "wrap_row.truncate (join_tier ts r) = r"
  by (simp add: join_tier_def Let_def wrap_row.defs ledger_row.defs)

lemma make_row_fields [simp]:
  "block (make_row w (b, ts, fee, bal, su, price)) = b"
  "timestamp (make_row w (b, ts, fee, bal, su, price)) = ts"
  "protocol_fee (make_row w (b, ts, fee, bal, su, price)) = fee"
  "balance (make_row w (b, ts, fee, bal, su, price)) = bal"
  "total_supply (make_row w (b, ts, fee, bal, su, price)) = su"
  "vault_price (make_row w (b, ts, fee, bal, su, price)) = price"
  "balance_usd (make_row w (b, ts, fee, bal, su, price)) = bal * price"
  "share (make_row w (b, ts, fee, bal, su, price)) = fdiv (Fin bal) (Fin su)"
  "payout_base (make_row w (b, ts, fee, bal, su, price)) =
     fmul (fmul (fdiv (Fin bal) (Fin su)) (Fin fee)) (Fin (65 / 100))"
  "wrapper (make_row w (b, ts, fee, bal, su, price)) = w_wrapper w"
  "vault (make_row w (b, ts, fee, bal, su, price)) = w_vault w"
  by (simp_all add: make_row_def Let_def)

lemma dict_setitem_keys:
  "map fst (dict_setitem d k v) = (if k \<in> set (map fst d) then map fst d else map fst d @ [k])"
  by (induction d) (fastforce simp: image_iff)+

lemma dict_setitem_set: "set (dict_setitem d k v) \<subseteq> insert (k, v) (set d)"
  by (induction d) (auto split: if_splits)

lemma fold_dict_setitem_keys:
  "distinct (map fst d) \<Longrightarrow>
   distinct (map fst (fold (\<lambda>(k, v) d. dict_setitem d k v) kvs d)) \<and>
   set (map fst (fold (\<lambda>(k, v) d. dict_setitem d k v) kvs d)) = set (map fst d) \<union> set (map fst kvs)"
proof (induction kvs arbitrary: d)
  case Nil
  then show ?case by simp
next
  case (Cons kv kvs)
  obtain k v where kv: "kv = (k, v)" by (cases kv)
  have d: "distinct (map fst (dict_setitem d k v))"
    using Cons.prems by (simp add: dict_setitem_keys)
  have s: "set (map fst (dict_setitem d k v)) = insert k (set (map fst d))"
    by (auto simp: dict_setitem_keys)
  from Cons.IH[OF d] show ?case
    unfolding kv s by auto
qed

lemma fold_dict_setitem_set:
  "set (fold (\<lambda>(k, v) d. dict_setitem d k v) kvs d) \<subseteq> set d \<union> set kvs"
proof (induction kvs arbitrary: d)
  case Nil
  then show ?case by simp
next
  case (Cons kv kvs)
  obtain k v where kv: "kv = (k, v)" by (cases kv)
  from Cons.IH[of "dict_setitem d k v"] dict_setitem_set[of d k v]
  show ?case unfolding kv by auto
qed

lemma dict_of_items_keys:
  "distinct (map fst (dict_of_items kvs))"
  "set (map fst (dict_of_items kvs)) = set (map fst kvs)"
  using fold_dict_setitem_keys[of "[]" kvs] by (simp_all add: dict_of_items_def)

lemma dict_of_items_set: "set (dict_of_items kvs) \<subseteq> set kvs"
  using fold_dict_setitem_set[of kvs "[]"] by (simp add: dict_of_items_def)

lemma length_dict_of_items: "length (dict_of_items kvs) = length (remdups (map fst kvs))"
proof -
  have "length (dict_of_items kvs) = length (map fst (dict_of_items kvs))" by simp
  also have "\<dots> = card (set (map fst (dict_of_items kvs)))"
    using dict_of_items_keys(1)[of kvs] by (simp only: distinct_card)
  also have "\<dots> = length (remdups (map fst kvs))"
    by (simp only: dict_of_items_keys(2) length_remdups_card_conv)
  finally show ?thesis .
qed

lemma map_of_map_key: "b \<in> set ks \<Longrightarrow> map_of (map (\<lambda>b. (b, f b)) ks) b = Some (f b)"
  by (induction ks) auto

lemma map_of_map_key_None: "b \<notin> set ks \<Longrightarrow> map_of (map (\<lambda>b. (b, f b)) ks) b = None"
  by (induction ks) auto

lemma zip_fst_map_snd:
  "zip (map fst xs) (map f (map snd xs)) = map (\<lambda>(b, n). (b, f n)) xs"
  by (induction xs) auto

text \<open>The frame of a wrapper whose vault has fee events and a nonzero scale.\<close>

lemma wrapper_frame_Inr:
  assumes "wrapper_frame c w = Inr f"
  shows "fee_logs c (w_vault w) \<noteq> []" "vault_scale c (w_vault w) \<noteq> 0"
    "map block f = map fst (dict_of_items (zip (map fst (fee_logs c (w_vault w)))
                 (map (\<lambda>n. real n / real (vault_scale c (w_vault w)))
                    (map snd (fee_logs c (w_vault w))))))"
    "\<forall>r\<in>set f. wrapper r = w_wrapper w \<and> vault r = w_vault w \<and>
        timestamp r = get_block_timestamp c (block r) \<and>
        balance r = real (balanceOf c (w_vault w) (w_wrapper w) (block r)) /
                    real (vault_scale c (w_vault w)) \<and>
        total_supply r = real (totalSupply c (w_vault w) (block r)) /
                    real (vault_scale c (w_vault w)) \<and>
        vault_price r = get_price c (w_vault w) (block r) \<and>
        balance_usd r = balance r * vault_price r \<and>
        share r = fdiv (Fin (balance r)) (Fin (total_supply r)) \<and>
        payout_base r = fmul (fmul (share r) (Fin (protocol_fee r))) (Fin (65 / 100)) \<and>
        (\<exists>n. (block r, n) \<in> set (fee_logs c (w_vault w)) \<and>
              protocol_fee r = real n / real (vault_scale c (w_vault w)))"
proof -
  let ?v = "w_vault w"
  let ?sc = "\<lambda>n. real n / real (vault_scale c ?v)"
  let ?d = "dict_of_items (zip (map fst (fee_logs c ?v)) (map ?sc (map snd (fee_logs c ?v))))"
  show logs: "fee_logs c ?v \<noteq> []" and scale: "vault_scale c ?v \<noteq> 0"
    using assms by (auto simp: wrapper_frame_cases split: if_splits)
  have f: "f = map (\<lambda>(b, fee). make_row w
                  (b, get_block_timestamp c b, fee,
                   real (balanceOf c ?v (w_wrapper w) b) / real (vault_scale c ?v),
                   real (totalSupply c ?v b) / real (vault_scale c ?v),
                   get_price c ?v b)) ?d"
    using assms logs scale by (simp add: wrapper_frame_cases)
  show "map block f = map fst ?d"
    unfolding f by (simp add: comp_def case_prod_unfold)
  have fee: "\<exists>n. (b, n) \<in> set (fee_logs c ?v) \<and> x = ?sc n" if "(b, x) \<in> set ?d" for b x
  proof -
    from that dict_of_items_set
    have "(b, x) \<in> set (zip (map fst (fee_logs c ?v)) (map ?sc (map snd (fee_logs c ?v))))"
      by blast
    then have "(b, x) \<in> set (map (\<lambda>(b, n). (b, ?sc n)) (fee_logs c ?v))"
      by (simp only: zip_fst_map_snd)
    then show ?thesis by auto
  qed
  show "\<forall>r\<in>set f. wrapper r = w_wrapper w \<and> vault r = w_vault w \<and>
        timestamp r = get_block_timestamp c (block r) \<and>
        balance r = real (balanceOf c (w_vault w) (w_wrapper w) (block r)) /
                    real (vault_scale c (w_vault w)) \<and>
        total_supply r = real (totalSupply c (w_vault w) (block r)) /
                    real (vault_scale c (w_vault w)) \<and>
        vault_price r = get_price c (w_vault w) (block r) \<and>
        balance_usd r = balance r * vault_price r \<and>
        share r = fdiv (Fin (balance r)) (Fin (total_supply r)) \<and>
        payout_base r = fmul (fmul (share r) (Fin (protocol_fee r))) (Fin (65 / 100)) \<and>
        (\<exists>n. (block r, n) \<in> set (fee_logs c (w_vault w)) \<and>
              protocol_fee r = real n / real (vault_scale c (w_vault w)))"
  proof
    fix r assume "r \<in> set f"
    then obtain b x where bx: "(b, x) \<in> set ?d"
      and r: "r = make_row w (b, get_block_timestamp c b, x,
                   real (balanceOf c ?v (w_wrapper w) b) / real (vault_scale c ?v),
                   real (totalSupply c ?v b) / real (vault_scale c ?v),
                   get_price c ?v b)"
      unfolding f by auto
    from fee[OF bx] show "wrapper r = w_wrapper w \<and> vault r = w_vault w \<and>
        timestamp r = get_block_timestamp c (block r) \<and>
        balance r = real (balanceOf c (w_vault w) (w_wrapper w) (block r)) /
                    real (vault_scale c (w_vault w)) \<and>
        total_supply r = real (totalSupply c (w_vault w) (block r)) /
                    real (vault_scale c (w_vault w)) \<and>
        vault_price r = get_price c (w_vault w) (block r) \<and>
        balance_usd r = balance r * vault_price r \<and>
        share r = fdiv (Fin (balance r)) (Fin (total_supply r)) \<and>
        payout_base r = fmul (fmul (share r) (Fin (protocol_fee r))) (Fin (65 / 100)) \<and>
        (\<exists>n. (block r, n) \<in> set (fee_logs c (w_vault w)) \<and>
              protocol_fee r = real n / real (vault_scale c (w_vault w)))"
      unfolding r by simp
  qed
qed

section \<open>The cumulative balance\<close>

lemma group_sum_balance:
  "group_sum rows (\<lambda>r. Fin (balance_usd r)) block vault b v =
     (if filter (\<lambda>r. block r = b \<and> vault r = v) rows = [] then NaN
      else Fin (vault_balance_at rows b v))"
  by (simp add: group_sum_def vault_balance_at_def nansum_map_Fin Let_def)

lemma group_sum_balance_NaN_iff:
  "group_sum (rows :: wrap_row list) (\<lambda>r. Fin (balance_usd r)) block vault b v \<noteq> NaN \<longleftrightarrow>
     (\<exists>r\<in>set rows. block r = b \<and> vault r = v)"
  unfolding group_sum_balance by (simp add: filter_empty_conv)

lemma pivot_balance:
  "pivot_table (rows :: wrap_row list) (\<lambda>r. Fin (balance_usd r)) block vault =
     \<lparr> index = sort (remdups (map block rows)),
       columns = sort (remdups (map vault rows)),
       cells = group_sum rows (\<lambda>r. Fin (balance_usd r)) block vault \<rparr>"
proof -
  have "filter (\<lambda>r. group_sum rows (\<lambda>r. Fin (balance_usd r)) block vault (block r) (vault r) \<noteq> NaN)
          rows = rows"
    by (rule filter_True) (auto simp: group_sum_balance_NaN_iff)
  then show ?thesis by (simp add: pivot_table_def)
qed

lemma ffill_cells:
  assumes "sorted (index f)" "distinct (index f)" "i \<in> set (index f)"
  shows "cells (ffill f) i c =
     (let obs = filter (\<lambda>j. cells f j c \<noteq> NaN) (filter (\<lambda>j. j \<le> i) (index f))
      in if obs = [] then NaN else cells f (last obs) c)"
proof -
  have "cells (ffill f) i c =
      fold (\<lambda>j acc. if cells f j c = NaN then acc else cells f j c)
        (takeWhile (\<lambda>j. j \<noteq> i) (index f) @ [i]) NaN"
    by (simp add: ffill_def Let_def ffill_rows_map_of[OF assms(2,3)])
  also have "\<dots> = fold (\<lambda>j acc. if cells f j c = NaN then acc else cells f j c)
        (filter (\<lambda>j. j \<le> i) (index f)) NaN"
    by (simp only: takeWhile_neq_sorted[OF assms])
  finally show ?thesis
    by (simp only: carry_fold[of "\<lambda>j. cells f j c"] Let_def)
qed

lemma ffill_index [simp]: "index (ffill f) = index f" "columns (ffill f) = columns f"
  by (simp_all add: ffill_def Let_def)

lemma filled_balance_cell:
  assumes "b \<in> set (map block (rows :: wrap_row list))"
  shows "cells (ffill (pivot_table rows (\<lambda>r. Fin (balance_usd r)) block vault)) b v =
     (case last_observed rows b v of
        None \<Rightarrow> NaN
      | Some b' \<Rightarrow> Fin (vault_balance_at rows b' v))"
proof -
  let ?P = "pivot_table rows (\<lambda>r. Fin (balance_usd r)) block vault"
  let ?cs = "group_sum rows (\<lambda>r. Fin (balance_usd r)) block vault"
  let ?idx = "sort (remdups (map block rows))"
  define obs where "obs = filter (\<lambda>j. ?cs j v \<noteq> NaN) (filter (\<lambda>j. j \<le> b) ?idx)"
  define bs where "bs = map block (filter (\<lambda>r. vault r = v \<and> block r \<le> b) rows)"
  have P: "index ?P = ?idx" "cells ?P = ?cs"
    by (simp_all add: pivot_balance)
  have "b \<in> set (index ?P)" "sorted (index ?P)" "distinct (index ?P)"
    using assms unfolding P by simp_all
  from ffill_cells[OF this(2,3,1), of v]
  have cell: "cells (ffill ?P) b v = (if obs = [] then NaN else ?cs (last obs) v)"
    unfolding P obs_def Let_def .
  have set_obs: "set obs = set bs"
  proof (intro set_eqI iffI)
    fix j assume "j \<in> set obs"
    then obtain r where "r \<in> set rows" "block r = j" "vault r = v" "j \<le> b"
      unfolding obs_def by (auto simp: group_sum_balance_NaN_iff)
    then show "j \<in> set bs" unfolding bs_def by force
  next
    fix j assume "j \<in> set bs"
    then obtain r where "r \<in> set rows" "block r = j" "vault r = v" "j \<le> b"
      unfolding bs_def by auto
    then show "j \<in> set obs"
      unfolding obs_def by (auto simp: group_sum_balance_NaN_iff)
  qed
  have sorted_obs: "sorted obs"
    unfolding obs_def by (intro sorted_wrt_filter) simp
  have lo: "last_observed rows b v = (if bs = [] then None else Some (Max (set bs)))"
    by (simp add: last_observed_def bs_def Let_def)
  show ?thesis
  proof (cases "bs = []")
    case True
    then have "set obs = {}" using set_obs by simp
    then have "obs = []" by simp
    with True show ?thesis unfolding cell lo by simp
  next
    case False
    then have "set obs \<noteq> {}" using set_obs by simp
    then have ne: "obs \<noteq> []" by auto
    have last: "last obs = Max (set bs)"
      using sorted_last_Max[OF sorted_obs ne] set_obs by simp
    have "Max (set bs) \<in> set bs"
      using False by (intro Max_in) auto
    then obtain r where r: "r \<in> set rows" "block r = Max (set bs)" "vault r = v"
      unfolding bs_def by auto
    then have "filter (\<lambda>r. block r = Max (set bs) \<and> vault r = v) rows \<noteq> []"
      by (auto simp: filter_empty_conv)
    then have "?cs (Max (set bs)) v = Fin (vault_balance_at rows (Max (set bs)) v)"
      by (simp add: group_sum_balance)
    with False ne show ?thesis unfolding cell lo last by simp
  qed
qed

lemma total_balances_eq:
  "total_balances rows =
     map (\<lambda>b. (b, Fin (cumulative_balance rows b))) (sort (remdups (map block rows)))"
proof -
  let ?P = "pivot_table rows (\<lambda>r. Fin (balance_usd r)) block vault"
  let ?cols = "sort (remdups (map vault rows))"
  have P: "index ?P = sort (remdups (map block rows))" "columns ?P = ?cols"
    by (simp_all add: pivot_balance)
  have row: "nansum (map (cells (ffill ?P) b) ?cols) = Fin (cumulative_balance rows b)"
    if "b \<in> set (map block rows)" for b
  proof -
    let ?g = "\<lambda>v. case last_observed rows b v of
                    None \<Rightarrow> NaN | Some b' \<Rightarrow> Fin (vault_balance_at rows b' v)"
    have eq: "map (cells (ffill ?P) b) ?cols = map ?g ?cols"
      using filled_balance_cell[OF that] by simp
    have "nansum (map ?g ?cols) = Fin (sum_list (map fin_part (map ?g ?cols)))"
      by (subst nansum_no_ninf) (auto split: option.splits)
    also have "map fin_part (map ?g ?cols) =
        map (\<lambda>v. case last_observed rows b v of
                    None \<Rightarrow> 0 | Some b' \<Rightarrow> vault_balance_at rows b' v) ?cols"
      by (auto split: option.splits)
    finally show ?thesis
      by (simp only: eq cumulative_balance_def)
  qed
  show ?thesis
    unfolding total_balances_def sum_axis1_def ffill_index P
    by (rule map_cong[OF refl]) (simp add: row)
qed

section \<open>The ledger\<close>

lemma list_all2_right_mem:
  "list_all2 P xs ys \<Longrightarrow> y \<in> set ys \<Longrightarrow> \<exists>x\<in>set xs. P x y"
  by (induction rule: list_all2_induct) auto

lemma list_all2_left_mem:
  "list_all2 P xs ys \<Longrightarrow> x \<in> set xs \<Longrightarrow> \<exists>y\<in>set ys. P x y"
  by (induction rule: list_all2_induct) auto

lemma tiers_map_of:
  assumes "r \<in> set (partner :: wrap_row list)"
  shows "map_of (map (\<lambda>(b, a). (b, projr (get_tier a))) (total_balances partner)) (block r) =
     Some (projr (get_tier (Fin (cumulative_balance partner (block r)))))"
proof -
  have "map (\<lambda>(b, a). (b, projr (get_tier a))) (total_balances partner) =
      map (\<lambda>b. (b, projr (get_tier (Fin (cumulative_balance partner b)))))
        (sort (remdups (map block partner)))"
    by (simp add: total_balances_eq comp_def)
  moreover have "block r \<in> set (sort (remdups (map block partner)))"
    using assms by simp
  ultimately show ?thesis
    by (simp only: map_of_map_key)
qed

lemma process_Inr:
  assumes "process c p = Inr (ledger, payouts)"
  shows "\<exists>fs. wrapper_frames c (p_wrappers p) = Inr fs \<and> fs \<noteq> [] \<and>
     map wrap_row.truncate ledger = concat fs \<and>
     ledger = map (join_tier (map (\<lambda>(b, a). (b, projr (get_tier a)))
                                   (total_balances (concat fs)))) (concat fs) \<and>
     payouts = export_payouts c p ledger"
proof (cases "wrapper_frames c (p_wrappers p)")
  case (Inl e)
  with assms show ?thesis by (simp add: process_cases)
next
  case (Inr fs)
  with assms have ne: "fs \<noteq> []"
    by (auto simp: process_cases split: if_splits)
  with assms Inr
  have l: "ledger = map (join_tier (map (\<lambda>(b, a). (b, projr (get_tier a)))
                                   (total_balances (concat fs)))) (concat fs)"
    and po: "payouts = export_payouts c p ledger"
    by (auto simp: process_cases Let_def)
  have "map wrap_row.truncate ledger = concat fs"
    unfolding l by (simp add: comp_def)
  with Inr ne l po show ?thesis by blast
qed

lemma process_succeeds_iff:
  "(\<exists>res. process c p = Inr res) \<longleftrightarrow>
     p_wrappers p \<noteq> [] \<and>
     (\<forall>w\<in>set (p_wrappers p). fee_logs c (w_vault w) \<noteq> [] \<and> vault_scale c (w_vault w) \<noteq> 0)"
proof -
  have frame_ok: "(\<exists>e. wrapper_frame c w = Inl e) \<longleftrightarrow>
      fee_logs c (w_vault w) = [] \<or> vault_scale c (w_vault w) = 0" for w
    by (auto simp: wrapper_frame_cases)
  show ?thesis
  proof (cases "wrapper_frames c (p_wrappers p)")
    case (Inl e)
    then have "\<exists>w\<in>set (p_wrappers p). \<exists>e. wrapper_frame c w = Inl e"
      using wrapper_frames_Inl_iff[of c "p_wrappers p"] by blast
    with Inl show ?thesis
      using frame_ok by (auto simp: process_cases)
  next
    case (Inr fs)
    then have "\<not> (\<exists>w\<in>set (p_wrappers p). \<exists>e. wrapper_frame c w = Inl e)"
      using wrapper_frames_Inl_iff[of c "p_wrappers p"] by auto
    then have ok: "\<forall>w\<in>set (p_wrappers p).
        fee_logs c (w_vault w) \<noteq> [] \<and> vault_scale c (w_vault w) \<noteq> 0"
      using frame_ok by blast
    from Inr have len: "length fs = length (p_wrappers p)"
      by (simp add: wrapper_frames_Inr_iff list_all2_lengthD)
    then have "fs = [] \<longleftrightarrow> p_wrappers p = []" by auto
    with Inr ok show ?thesis
      by (auto simp: process_cases Let_def)
  qed
qed

lemma ledger_row_origin:
  assumes "process c p = Inr (ledger, payouts)" and "r \<in> set ledger"
  shows "\<exists>w\<in>set (p_wrappers p). \<exists>f. wrapper_frame c w = Inr f \<and> wrap_row.truncate r \<in> set f"
    and "\<exists>t. get_tier (Fin (cumulative_balance (map wrap_row.truncate ledger) (block r))) = Inr t \<and>
          0 \<le> t \<and> tier r = Fin t \<and> payout r = fmul (payout_base r) (Fin t)"
proof -
  from process_Inr[OF assms(1)] obtain fs where
    fs: "wrapper_frames c (p_wrappers p) = Inr fs"
    and tr: "map wrap_row.truncate ledger = concat fs"
    and l: "ledger = map (join_tier (map (\<lambda>(b, a). (b, projr (get_tier a)))
                                   (total_balances (concat fs)))) (concat fs)"
    by blast
  from assms(2) obtain r0 where r0: "r0 \<in> set (concat fs)"
    and r: "r = join_tier (map (\<lambda>(b, a). (b, projr (get_tier a)))
                                   (total_balances (concat fs))) r0"
    unfolding l by auto
  from r0 obtain f where f: "f \<in> set fs" "r0 \<in> set f" by auto
  from fs have "list_all2 (\<lambda>w f. wrapper_frame c w = Inr f) (p_wrappers p) fs"
    by (simp add: wrapper_frames_Inr_iff)
  from list_all2_right_mem[OF this f(1)] f(2)
  show "\<exists>w\<in>set (p_wrappers p). \<exists>f. wrapper_frame c w = Inr f \<and> wrap_row.truncate r \<in> set f"
    unfolding r by auto
  obtain t where t: "get_tier (Fin (cumulative_balance (concat fs) (block r0))) = Inr t" "0 \<le> t"
    using get_tier_total by blast
  have "map_of (map (\<lambda>(b, a). (b, projr (get_tier a))) (total_balances (concat fs))) (block r0)
      = Some t"
    using tiers_map_of[OF r0] t by simp
  then have "tier r = Fin t" "payout r = fmul (payout_base r) (Fin t)" "block r = block r0"
    unfolding r by simp_all
  with t show "\<exists>t. get_tier (Fin (cumulative_balance (map wrap_row.truncate ledger) (block r))) = Inr t \<and>
          0 \<le> t \<and> tier r = Fin t \<and> payout r = fmul (payout_base r) (Fin t)"
    unfolding tr by auto
qed

lemma truncate_fields [simp]:
  "block (wrap_row.truncate r) = block r"
  "timestamp (wrap_row.truncate r) = timestamp r"
  "protocol_fee (wrap_row.truncate r) = protocol_fee r"
  "balance (wrap_row.truncate r) = balance r"
  "total_supply (wrap_row.truncate r) = total_supply r"
  "vault_price (wrap_row.truncate r) = vault_price r"
  "balance_usd (wrap_row.truncate r) = balance_usd r"
  "share (wrap_row.truncate r) = share r"
  "payout_base (wrap_row.truncate r) = payout_base r"
  "wrapper (wrap_row.truncate r) = wrapper r"
  "vault (wrap_row.truncate r) = vault r"
  by (simp_all add: wrap_row.truncate_def)

lemma row_share_and_base:
  assumes "process c p = Inr (ledger, payouts)" and "r \<in> set ledger"
  shows "share r = fdiv (Fin (balance r)) (Fin (total_supply r))"
    and "payout_base r = fmul (fmul (share r) (Fin (protocol_fee r))) (Fin (65 / 100))"
proof -
  from ledger_row_origin(1)[OF assms] obtain w f where
    f: "wrapper_frame c w = Inr f" "wrap_row.truncate r \<in> set f"
    by blast
  from wrapper_frame_Inr(4)[OF f(1)] f(2)
  show "share r = fdiv (Fin (balance r)) (Fin (total_supply r))"
    and "payout_base r = fmul (fmul (share r) (Fin (protocol_fee r))) (Fin (65 / 100))"
    by force+
qed

lemma wrapper_frames_Inl:
  "wrapper_frames c ws = Inl e \<Longrightarrow> \<exists>w\<in>set ws. wrapper_frame c w = Inl e"
proof (induction ws)
  case Nil
  then show ?case by simp
next
  case (Cons w ws)
  then show ?case
    by (cases "wrapper_frame c w"; cases "wrapper_frames c ws") auto
qed

lemma wrapper_frame_length:
  assumes "wrapper_frame c w = Inr f"
  shows "length f = length (remdups (map fst (fee_logs c (w_vault w))))"
    and "set (map block f) = set (map fst (fee_logs c (w_vault w)))"
proof -
  let ?logs = "fee_logs c (w_vault w)"
  let ?kvs = "zip (map fst ?logs)
                 (map (\<lambda>n. real n / real (vault_scale c (w_vault w))) (map snd ?logs))"
  have keys: "map fst ?kvs = map fst ?logs"
    by (simp add: zip_fst_map_snd comp_def case_prod_unfold)
  have "length f = length (map block f)" by simp
  also have "\<dots> = length (dict_of_items ?kvs)"
    by (simp only: wrapper_frame_Inr(3)[OF assms] length_map)
  finally show "length f = length (remdups (map fst ?logs))"
    by (simp only: length_dict_of_items keys)
  show "set (map block f) = set (map fst ?logs)"
    by (simp only: wrapper_frame_Inr(3)[OF assms] dict_of_items_keys(2) keys)
qed

lemma frames_total_length:
  "list_all2 (\<lambda>w f. wrapper_frame c w = Inr f) ws fs \<Longrightarrow>
   length (concat fs) =
     sum_list (map (\<lambda>w. length (remdups (map fst (fee_logs c (w_vault w))))) ws)"
  by (induction rule: list_all2_induct) (simp_all add: wrapper_frame_length(1))

lemma nonneg_ledger_row:
  assumes "process c p = Inr (ledger, payouts)" and "r \<in> set ledger"
  shows "0 \<le> balance r" "0 \<le> total_supply r" "0 \<le> protocol_fee r"
    "nonneg_fl (share r)" "nonneg_fl (payout_base r)" "nonneg_fl (tier r)" "nonneg_fl (payout r)"
proof -
  from ledger_row_origin(1)[OF assms] obtain w f where
    f: "wrapper_frame c w = Inr f" "wrap_row.truncate r \<in> set f"
    by blast
  from wrapper_frame_Inr(4)[OF f(1)] f(2)
  have facts:
    "balance r = real (balanceOf c (w_vault w) (w_wrapper w) (block r)) /
                    real (vault_scale c (w_vault w))"
    "total_supply r = real (totalSupply c (w_vault w) (block r)) /
                    real (vault_scale c (w_vault w))"
    "share r = fdiv (Fin (balance r)) (Fin (total_supply r))"
    "payout_base r = fmul (fmul (share r) (Fin (protocol_fee r))) (Fin (65 / 100))"
    "\<exists>n. protocol_fee r = real n / real (vault_scale c (w_vault w))"
    by force+
  show b: "0 \<le> balance r" and s: "0 \<le> total_supply r" and fee: "0 \<le> protocol_fee r"
    using facts(1,2,5) by auto
  show sh: "nonneg_fl (share r)"
    unfolding facts(3) using b s by (rule nonneg_fdiv)
  show pb: "nonneg_fl (payout_base r)"
    unfolding facts(4) using sh fee by (intro nonneg_fmul) simp_all
  from ledger_row_origin(2)[OF assms] obtain t where
    t: "0 \<le> t" "tier r = Fin t" "payout r = fmul (payout_base r) (Fin t)"
    by blast
  show "nonneg_fl (tier r)" using t by simp
  show "nonneg_fl (payout r)"
    unfolding t(3) using pb t(1) by (intro nonneg_fmul) simp_all
qed

lemma fmul_not_finite: "\<forall>a. x \<noteq> Fin a \<Longrightarrow> fmul x y \<noteq> Fin b"
  by (cases x; cases y) (auto simp: inf_of_sign_def)

lemma last_observed_le: "last_observed rows b v = Some b' \<Longrightarrow> b' \<le> b"
proof -
  assume a: "last_observed rows b v = Some b'"
  let ?bs = "map block (filter (\<lambda>r. vault r = v \<and> block r \<le> b) rows)"
  from a have ne: "?bs \<noteq> []" and b': "b' = Max (set ?bs)"
    by (auto simp: last_observed_def Let_def split: if_splits)
  have "Max (set ?bs) \<in> set ?bs"
    using ne by (intro Max_in) (simp_all del: map_is_Nil_conv set_map)
  then show ?thesis unfolding b' by auto
qed

lemma cumulative_balance_prior:
  "cumulative_balance rows b = cumulative_balance (filter (\<lambda>r. block r \<le> b) rows) b"
proof -
  let ?rows' = "filter (\<lambda>r. block r \<le> b) rows"
  let ?g = "\<lambda>rs v. case last_observed rs b v of
                     None \<Rightarrow> 0 | Some b' \<Rightarrow> vault_balance_at rs b' v"
  have lo: "last_observed ?rows' b v = last_observed rows b v" for v
  proof -
    have "filter (\<lambda>r. vault r = v \<and> block r \<le> b) ?rows' =
        filter (\<lambda>r. vault r = v \<and> block r \<le> b) rows"
      by (simp add: conj_commute cong: conj_cong)
    then show ?thesis by (simp only: last_observed_def)
  qed
  have vb: "vault_balance_at ?rows' b' v = vault_balance_at rows b' v" if "b' \<le> b" for b' v
  proof -
    have "filter (\<lambda>r. block r = b' \<and> vault r = v) ?rows' =
        filter (\<lambda>r. block r = b' \<and> vault r = v) rows"
      using that by (auto intro: filter_cong)
    then show ?thesis by (simp only: vault_balance_at_def)
  qed
  have g: "?g ?rows' v = ?g rows v" for v
    unfolding lo using vb last_observed_le[of rows b v]
    by (cases "last_observed rows b v") simp_all
  have zero: "?g rows v = 0" if "v \<notin> set (map vault ?rows')" for v
  proof -
    from that have "filter (\<lambda>r. vault r = v \<and> block r \<le> b) rows = []"
      by (auto simp: filter_empty_conv)
    then show ?thesis by (simp add: last_observed_def)
  qed
  have "cumulative_balance rows b = sum (?g rows) (set (map vault rows))"
    unfolding cumulative_balance_def
    by (subst sum_list_distinct_conv_sum_set) simp_all
  also have "\<dots> = sum (?g rows) (set (map vault ?rows'))"
    by (rule sum.mono_neutral_right) (use zero in auto)
  also have "\<dots> = sum (?g ?rows') (set (map vault ?rows'))"
    by (simp only: g)
  also have "\<dots> = cumulative_balance ?rows' b"
    unfolding cumulative_balance_def
    by (subst sum_list_distinct_conv_sum_set) simp_all
  finally show ?thesis .
qed

section \<open>Sums over groups\<close>

lemma fadd_zero [simp]: "fadd x (Fin 0) = x"
  by (cases x) simp_all

lemma nansum_cong_summary:
  assumes "\<forall>x\<in>set xs. x \<noteq> NInf" "\<forall>y\<in>set ys. y \<noteq> NInf"
    and "PInf \<in> set xs \<longleftrightarrow> PInf \<in> set ys"
    and "PInf \<notin> set ys \<Longrightarrow> sum_list (map fin_part xs) = sum_list (map fin_part ys)"
  shows "nansum xs = nansum ys"
  using assms by (simp add: nansum_no_ninf)

lemma nansum_not_ninf:
  assumes "\<forall>x\<in>set xs. x \<noteq> NInf"
  shows "nansum xs \<noteq> NInf" "nansum xs \<noteq> NaN"
  using assms by (simp_all add: nansum_no_ninf)

lemma nansum_PInf_iff:
  "\<forall>x\<in>set xs. x \<noteq> NInf \<Longrightarrow> nansum xs = PInf \<longleftrightarrow> PInf \<in> set xs"
  by (simp add: nansum_no_ninf)

lemma fin_part_nansum:
  "\<forall>x\<in>set xs. x \<noteq> NInf \<Longrightarrow> PInf \<notin> set xs \<Longrightarrow>
   fin_part (nansum xs) = sum_list (map fin_part xs)"
  by (simp add: nansum_no_ninf)

lemma sum_list_map_concat:
  "sum_list (map f (concat xss)) = sum_list (map (\<lambda>xs. sum_list (map f xs)) xss)"
  by (induction xss) simp_all

lemma nansum_groups:
  assumes "\<forall>g\<in>set gs. \<forall>x\<in>set g. x \<noteq> NInf"
  shows "nansum (map nansum gs) = nansum (concat gs)"
proof (rule nansum_cong_summary)
  show "\<forall>x\<in>set (map nansum gs). x \<noteq> NInf"
    using assms by (auto simp: nansum_not_ninf)
  show "\<forall>y\<in>set (concat gs). y \<noteq> NInf"
    using assms by auto
  show "PInf \<in> set (map nansum gs) \<longleftrightarrow> PInf \<in> set (concat gs)"
  proof
    assume "PInf \<in> set (map nansum gs)"
    then obtain g where g: "g \<in> set gs" "nansum g = PInf" by auto
    with assms have "PInf \<in> set g" by (simp add: nansum_PInf_iff)
    with g show "PInf \<in> set (concat gs)" by auto
  next
    assume "PInf \<in> set (concat gs)"
    then obtain g where g: "g \<in> set gs" "PInf \<in> set g" by auto
    with assms have "nansum g = PInf" by (simp add: nansum_PInf_iff)
    with g show "PInf \<in> set (map nansum gs)" by force
  qed
  assume "PInf \<notin> set (concat gs)"
  then have "\<forall>g\<in>set gs. PInf \<notin> set g" by auto
  with assms have "map fin_part (map nansum gs) = map (\<lambda>g. sum_list (map fin_part g)) gs"
    by (simp add: fin_part_nansum)
  then show "sum_list (map fin_part (map nansum gs)) = sum_list (map fin_part (concat gs))"
    by (simp only: sum_list_map_concat)
qed

lemma nansum_mset:
  assumes "\<forall>x\<in>set xs. x \<noteq> NInf" and "mset xs = mset ys"
  shows "nansum xs = nansum ys"
proof (rule nansum_cong_summary)
  have s: "set xs = set ys" using assms(2) by (rule mset_eq_setD)
  show "\<forall>x\<in>set xs. x \<noteq> NInf" by (rule assms(1))
  show "\<forall>y\<in>set ys. y \<noteq> NInf" using assms(1) s by simp
  show "PInf \<in> set xs \<longleftrightarrow> PInf \<in> set ys" using s by simp
  have "sum_list (map fin_part xs) = sum_mset (mset (map fin_part xs))"
    by (simp only: sum_mset_sum_list)
  also have "\<dots> = sum_mset (mset (map fin_part ys))"
    using assms(2) by simp
  finally show "sum_list (map fin_part xs) = sum_list (map fin_part ys)"
    by (simp only: sum_mset_sum_list)
qed

lemma nansum_skip_empty:
  "nansum (map (\<lambda>k. if g k = [] then NaN else nansum (g k)) ks) = nansum (map (\<lambda>k. nansum (g k)) ks)"
proof -
  have "nansum_from acc (map (\<lambda>k. if g k = [] then NaN else nansum (g k)) ks) =
      nansum_from acc (map (\<lambda>k. nansum (g k)) ks)" for acc
  proof (induction ks arbitrary: acc)
    case Nil
    then show ?case by simp
  next
    case (Cons k ks)
    then show ?case by (simp add: nansum_def)
  qed
  then show ?thesis by (simp add: nansum_def)
qed

lemma mset_concat_groups:
  "distinct ks \<Longrightarrow>
   mset (concat (map (\<lambda>k. filter (\<lambda>r. key r = k) rows) ks)) =
   mset (filter (\<lambda>r. key r \<in> set ks) rows)"
proof (induction ks)
  case Nil
  then show ?case by simp
next
  case (Cons k ks)
  then have k: "k \<notin> set ks" and IH: "mset (concat (map (\<lambda>k. filter (\<lambda>r. key r = k) rows) ks)) =
   mset (filter (\<lambda>r. key r \<in> set ks) rows)"
    by simp_all
  have "filter_mset (\<lambda>r. key r = k) (mset rows) + filter_mset (\<lambda>r. key r \<in> set ks) (mset rows) =
      filter_mset (\<lambda>r. key r = k \<or> key r \<in> set ks) (mset rows)"
    using k by (intro multiset_eqI) auto
  then show ?case
    by (simp add: IH)
qed

text \<open>Summing group by group, over distinct keys that cover the rows, is summing all rows.\<close>

lemma nansum_by_groups:
  assumes "\<forall>r\<in>set rows. f r \<noteq> NInf" and "distinct ks"
  shows "nansum (map (\<lambda>k. nansum (map f (filter (\<lambda>r. key r = k) rows))) ks) =
     nansum (map f (filter (\<lambda>r. key r \<in> set ks) rows))"
proof -
  let ?gs = "map (\<lambda>k. map f (filter (\<lambda>r. key r = k) rows)) ks"
  have "nansum (map (\<lambda>k. nansum (map f (filter (\<lambda>r. key r = k) rows))) ks) = nansum (map nansum ?gs)"
    by (simp add: comp_def)
  also have "\<dots> = nansum (concat ?gs)"
    by (rule nansum_groups) (use assms(1) in auto)
  also have "concat ?gs = map f (concat (map (\<lambda>k. filter (\<lambda>r. key r = k) rows) ks))"
    by (simp add: map_concat comp_def)
  also have "nansum \<dots> = nansum (map f (filter (\<lambda>r. key r \<in> set ks) rows))"
  proof (rule nansum_mset)
    show "\<forall>x\<in>set (map f (concat (map (\<lambda>k. filter (\<lambda>r. key r = k) rows) ks))). x \<noteq> NInf"
      using assms(1) by auto
    show "mset (map f (concat (map (\<lambda>k. filter (\<lambda>r. key r = k) rows) ks))) =
        mset (map f (filter (\<lambda>r. key r \<in> set ks) rows))"
      using mset_concat_groups[OF assms(2), of key rows]
      by (metis mset_map)
  qed
  finally show ?thesis .
qed

section \<open>The exported payouts\<close>

lemma nonneg_not_ninf: "nonneg_fl x \<Longrightarrow> x \<noteq> NInf"
  by (cases x) simp_all

lemma group_sum_payout_NaN_iff:
  assumes "\<forall>r\<in>set (L :: ledger_row list). nonneg_fl (payout r)"
  shows "group_sum L payout timestamp vault t v \<noteq> NaN \<longleftrightarrow>
     (\<exists>r\<in>set L. timestamp r = t \<and> vault r = v)"
proof -
  have "nansum (map payout (filter (\<lambda>r. timestamp r = t \<and> vault r = v) L)) \<noteq> NaN"
    by (rule nansum_not_ninf(2)) (use assms in \<open>auto dest: nonneg_not_ninf\<close>)
  then show ?thesis
    by (auto simp: group_sum_def Let_def filter_empty_conv)
qed

lemma pivot_payout:
  assumes "\<forall>r\<in>set (L :: ledger_row list). nonneg_fl (payout r)"
  shows "pivot_table L payout timestamp vault =
     \<lparr> index = sort (remdups (map timestamp L)),
       columns = sort (remdups (map vault L)),
       cells = group_sum L payout timestamp vault \<rparr>"
proof -
  have "filter (\<lambda>r. group_sum L payout timestamp vault (timestamp r) (vault r) \<noteq> NaN) L = L"
    by (rule filter_True) (auto simp: group_sum_payout_NaN_iff[OF assms])
  then show ?thesis by (simp add: pivot_table_def)
qed

lemma resampled_cell:
  assumes "\<forall>r\<in>set (L :: ledger_row list). nonneg_fl (payout r)"
  shows "nansum (map (\<lambda>t. group_sum L payout timestamp vault t v)
            (filter (\<lambda>t. month t = m) (sort (remdups (map timestamp L))))) =
         monthly_amount month L m v"
proof -
  let ?ts = "filter (\<lambda>t. month t = m) (sort (remdups (map timestamp L)))"
  let ?Lv = "filter (\<lambda>r. vault r = v) L"
  have g: "group_sum L payout timestamp vault t v =
      (if map payout (filter (\<lambda>r. timestamp r = t) ?Lv) = [] then NaN
       else nansum (map payout (filter (\<lambda>r. timestamp r = t) ?Lv)))" for t
    by (simp add: group_sum_def Let_def conj_commute)
  have "nansum (map (\<lambda>t. group_sum L payout timestamp vault t v) ?ts) =
      nansum (map (\<lambda>t. nansum (map payout (filter (\<lambda>r. timestamp r = t) ?Lv))) ?ts)"
    unfolding g by (rule nansum_skip_empty)
  also have "\<dots> = nansum (map payout (filter (\<lambda>r. timestamp r \<in> set ?ts) ?Lv))"
    by (rule nansum_by_groups) (use assms in \<open>auto dest: nonneg_not_ninf\<close>)
  also have "filter (\<lambda>r. timestamp r \<in> set ?ts) ?Lv =
      filter (\<lambda>r. month (timestamp r) = m \<and> vault r = v) L"
    by (auto intro: filter_cong)
  finally show ?thesis by (simp only: monthly_amount_def)
qed

lemma concat_map_product:
  "concat (map (\<lambda>m. map (\<lambda>v. f m v) cols) bins) = map (\<lambda>(m, v). f m v) (List.product bins cols)"
  by (induction bins) simp_all

lemma monthly_amount_not_NaN:
  assumes "\<forall>r\<in>set (L :: ledger_row list). nonneg_fl (payout r)"
  shows "monthly_amount month L m v \<noteq> NaN" "nonneg_fl (monthly_amount month L m v)"
  unfolding monthly_amount_def
  by (rule nonneg_nansum; use assms in auto)+

lemma export_payouts_eq:
  assumes "\<forall>r\<in>set (L :: ledger_row list). nonneg_fl (payout r)"
  shows "export_payouts c p L =
     map (\<lambda>(m, v). \<lparr> po_timestamp = m, po_partner = p_name p, po_token = v,
                      po_treasury = p_treasury p,
                      po_amount = monthly_amount (month_of c) L m v \<rparr>)
       (List.product (month_bins (month_of c) L) (sort (remdups (map vault L))))"
proof -
  let ?P = "pivot_table L payout timestamp vault"
  let ?R = "resample_month_sum (month_of c) ?P"
  let ?cols = "sort (remdups (map vault L))"
  have months: "set (map (month_of c) (sort (remdups (map timestamp L)))) =
      set (map (\<lambda>r. month_of c (timestamp r)) L)"
    by (simp add: image_image)
  have empty: "map (month_of c) (sort (remdups (map timestamp L))) = [] \<longleftrightarrow> L = []"
    by (metis list.map_disc_iff remdups_eq_nil_iff set_empty set_sort)
  have bins: "index ?R = month_bins (month_of c) L"
    unfolding resample_month_sum_def pivot_payout[OF assms] month_bins_def Let_def
    by (simp only: frame.simps months empty)
  have cols: "columns ?R = ?cols"
    by (simp add: resample_month_sum_def pivot_payout[OF assms] Let_def)
  have cell: "cells ?R m v = monthly_amount (month_of c) L m v" for m v
    using resampled_cell[OF assms, of v "month_of c" m]
    by (simp add: resample_month_sum_def pivot_payout[OF assms] Let_def)
  have keep: "filter (\<lambda>v. monthly_amount (month_of c) L m v \<noteq> NaN) ?cols = ?cols" for m
    by (rule filter_True) (simp add: monthly_amount_not_NaN(1)[OF assms])
  have "stack ?R =
      concat (map (\<lambda>m. map (\<lambda>v. (m, v, monthly_amount (month_of c) L m v)) ?cols)
                (month_bins (month_of c) L))"
    unfolding stack_def bins cols cell keep ..
  also have "\<dots> = map (\<lambda>(m, v). (m, v, monthly_amount (month_of c) L m v))
                (List.product (month_bins (month_of c) L) ?cols)"
    by (rule concat_map_product)
  finally show ?thesis
    by (simp add: export_payouts_def comp_def case_prod_unfold)
qed

lemma month_in_bins:
  "r \<in> set L \<Longrightarrow> month (timestamp r) \<in> set (month_bins month L)"
proof -
  assume r: "r \<in> set L"
  let ?M = "set (map (\<lambda>r. month (timestamp r)) L)"
  have fin: "finite ?M" by simp
  have mem: "month (timestamp r) \<in> ?M" using r by auto
  have "Min ?M \<le> month (timestamp r)" "month (timestamp r) \<le> Max ?M"
    using fin mem by (rule Min_le, rule Max_ge)
  moreover have "L \<noteq> []" using r by auto
  ultimately show ?thesis by (simp add: month_bins_def, linarith)
qed

lemma ledger_payout_sum:
  assumes "\<forall>r\<in>set (L :: ledger_row list). nonneg_fl (payout r)"
  shows "nansum (map po_amount (export_payouts c p L)) = nansum (map payout L)"
proof -
  let ?ks = "List.product (month_bins (month_of c) L) (sort (remdups (map vault L)))"
  let ?key = "\<lambda>r. (month_of c (timestamp r), vault r)"
  have "map po_amount (export_payouts c p L) =
      map (\<lambda>k. nansum (map payout (filter (\<lambda>r. ?key r = k) L))) ?ks"
    by (simp add: export_payouts_eq[OF assms] comp_def case_prod_unfold monthly_amount_def
        prod_eq_iff)
  also have "nansum \<dots> = nansum (map payout (filter (\<lambda>r. ?key r \<in> set ?ks) L))"
  proof (rule nansum_by_groups)
    show "\<forall>r\<in>set L. payout r \<noteq> NInf"
      using assms by (auto dest: nonneg_not_ninf)
    show "distinct ?ks"
      by (rule distinct_product) (simp_all add: month_bins_def)
  qed
  also have "filter (\<lambda>r. ?key r \<in> set ?ks) L = L"
    by (rule filter_True) (simp add: month_in_bins)
  finally show ?thesis .
qed

lemma payouts_not_NaN:
  assumes "process c p = Inr (ledger, payouts)" and "q \<in> set payouts"
  shows "po_amount q \<noteq> NaN"
proof -
  have nn: "\<forall>r\<in>set ledger. nonneg_fl (payout r)"
    using nonneg_ledger_row(7)[OF assms(1)] by blast
  from process_Inr[OF assms(1)] have "payouts = export_payouts c p ledger" by blast
  with assms(2) show ?thesis
    unfolding export_payouts_eq[OF nn]
    by (auto simp: monthly_amount_not_NaN(1)[OF nn])
qed

text \<open>
  The amount of a month and vault, written out: NaN payouts are left out of the sum,
  and every row of the ledger has its month and vault in the export.
\<close>

lemma sum_fin_part_skip_NaN:
  "sum_list (map (\<lambda>r. fin_part (f r)) (filter P xs)) =
   sum_list (map (\<lambda>r. fin_part (f r)) (filter (\<lambda>r. P r \<and> f r \<noteq> NaN) xs))"
  by (induction xs) auto

lemma monthly_amount_explicit:
  assumes "\<forall>r\<in>set (L :: ledger_row list). nonneg_fl (payout r)"
  shows "monthly_amount month L m v =
     (if \<exists>r\<in>set L. month (timestamp r) = m \<and> vault r = v \<and> payout r = PInf then PInf
      else Fin (sum_list (map (\<lambda>r. fin_part (payout r))
                  (filter (\<lambda>r. month (timestamp r) = m \<and> vault r = v \<and> payout r \<noteq> NaN) L))))"
proof -
  let ?g = "filter (\<lambda>r. month (timestamp r) = m \<and> vault r = v) L"
  have nn: "\<forall>x\<in>set (map payout ?g). x \<noteq> NInf"
    using assms by (auto dest: nonneg_not_ninf)
  have inf: "PInf \<in> set (map payout ?g) \<longleftrightarrow>
      (\<exists>r\<in>set L. month (timestamp r) = m \<and> vault r = v \<and> payout r = PInf)"
    by force
  have "sum_list (map fin_part (map payout ?g)) =
      sum_list (map (\<lambda>r. fin_part (payout r)) ?g)"
    by (simp add: comp_def)
  also have "\<dots> = sum_list (map (\<lambda>r. fin_part (payout r))
      (filter (\<lambda>r. (month (timestamp r) = m \<and> vault r = v) \<and> payout r \<noteq> NaN) L))"
    by (rule sum_fin_part_skip_NaN)
  finally have fin: "sum_list (map fin_part (map payout ?g)) =
      sum_list (map (\<lambda>r. fin_part (payout r))
        (filter (\<lambda>r. month (timestamp r) = m \<and> vault r = v \<and> payout r \<noteq> NaN) L))"
    by (simp only: conj_assoc)
  show ?thesis
    unfolding monthly_amount_def nansum_no_ninf[OF nn] inf fin ..
qed

lemma export_covers_ledger:
  assumes "process c p = Inr (ledger, payouts)" and "r \<in> set ledger"
  shows "\<exists>q\<in>set payouts. po_timestamp q = month_of c (timestamp r) \<and> po_token q = vault r"
proof -
  have nn: "\<forall>r\<in>set ledger. nonneg_fl (payout r)"
    using nonneg_ledger_row(7)[OF assms(1)] by blast
  from process_Inr[OF assms(1)] have po: "payouts = export_payouts c p ledger" by blast
  let ?k = "(month_of c (timestamp r), vault r)"
  have "?k \<in> set (List.product (month_bins (month_of c) ledger) (sort (remdups (map vault ledger))))"
    using assms(2) by (simp add: month_in_bins)
  then show ?thesis
    unfolding po export_payouts_eq[OF nn] by force
qed

section \<open>Concrete runs\<close>

lemma demo_frame_X:
  "wrapper_frame (demo_env pr) (wrapper_for ''X'') =
     Inr [make_row (wrapper_for ''X'') (1, 1, 10, 100, 1000, pr),
          make_row (wrapper_for ''X'') (5, 5, 20, 200, 1000, pr)]"
  by (simp add: wrapper_frame_cases demo_env_def wrapper_for_def dict_of_items_def)

lemma demo_frame_Y:
  "wrapper_frame (demo_env pr) (wrapper_for ''Y'') =
     Inr [make_row (wrapper_for ''Y'') (5, 5, 7, 50, 50, pr)]"
  by (simp add: wrapper_frame_cases demo_env_def wrapper_for_def dict_of_items_def)

lemma demo_frame_Z:
  "wrapper_frame (demo_env pr) (wrapper_for ''Z'') =
     Inr [make_row (wrapper_for ''Z'') (3, 3, 4, 0, 0, pr)]"
  by (simp add: wrapper_frame_cases demo_env_def wrapper_for_def dict_of_items_def)

lemma demo_frame_Q:
  "wrapper_frame (demo_env pr) (wrapper_for ''Q'') =
     Inr [make_row (wrapper_for ''Q'') (2, 2, 1, 5, 0, pr)]"
  by (simp add: wrapper_frame_cases demo_env_def wrapper_for_def dict_of_items_def)

lemma demo_frame_E:
  "wrapper_frame (demo_env pr) (wrapper_for ''E'') = Inl ValueError"
  by (simp add: wrapper_frame_cases demo_env_def wrapper_for_def)

lemmas demo_frames = demo_frame_X demo_frame_Y demo_frame_Z demo_frame_Q demo_frame_E

lemma demo_rows_XY:
  "demo_rows pr [''X'', ''Y''] =
     [make_row (wrapper_for ''X'') (1, 1, 10, 100, 1000, pr),
      make_row (wrapper_for ''X'') (5, 5, 20, 200, 1000, pr),
      make_row (wrapper_for ''Y'') (5, 5, 7, 50, 50, pr)]"
  by (simp add: demo_rows_def demo_frames)

lemma demo_rows_XYZ:
  "demo_rows pr [''X'', ''Y'', ''Z''] =
     [make_row (wrapper_for ''X'') (1, 1, 10, 100, 1000, pr),
      make_row (wrapper_for ''X'') (5, 5, 20, 200, 1000, pr),
      make_row (wrapper_for ''Y'') (5, 5, 7, 50, 50, pr),
      make_row (wrapper_for ''Z'') (3, 3, 4, 0, 0, pr)]"
  by (simp add: demo_rows_def demo_frames)

lemma ledger_of_process:
  "ledger_of (process c p) =
     (case wrapper_frames c (p_wrappers p) of
        Inl e \<Rightarrow> []
      | Inr fs \<Rightarrow> map (join_tier (map (\<lambda>(b, a). (b, projr (get_tier a)))
                                         (total_balances (concat fs)))) (concat fs))"
  by (simp add: ledger_of_def process_cases Let_def split: sum.splits)

lemma process_eq_projections:
  "p_wrappers p \<noteq> [] \<Longrightarrow>
   \<forall>w\<in>set (p_wrappers p). fee_logs c (w_vault w) \<noteq> [] \<and> vault_scale c (w_vault w) \<noteq> 0 \<Longrightarrow>
   process c p = Inr (ledger_of (process c p), payouts_of (process c p))"
  using process_succeeds_iff[of c p] by (auto simp: ledger_of_def payouts_of_def)

lemma demo_ledger_eq:
  "demo_ledger pr vs =
     map (join_tier (map (\<lambda>(b, a). (b, projr (get_tier a))) (total_balances (demo_rows pr vs))))
       (demo_rows pr vs)"
  by (simp add: demo_ledger_def ledger_of_process demo_rows_def demo_partner_def split: sum.splits)

lemma demo_totals_XY:
  "total_balances (demo_rows 1 [''X'', ''Y'']) = [(1, Fin 100), (5, Fin 250)]"
  unfolding demo_rows_XY
  by (simp add: total_balances_def sum_axis1_def ffill_def pivot_table_def group_sum_def
      wrapper_for_def nansum_def Let_def)

lemma demo_totals_XYZ:
  "total_balances (demo_rows 1 [''X'', ''Y'', ''Z'']) = [(1, Fin 100), (3, Fin 100), (5, Fin 250)]"
  unfolding demo_rows_XYZ
  by (simp add: total_balances_def sum_axis1_def ffill_def pivot_table_def group_sum_def
      wrapper_for_def nansum_def Let_def)

lemma demo_totals_rich:
  "total_balances (demo_rows 20000 [''X'', ''Y'', ''Z'']) =
     [(1, Fin 2000000), (3, Fin 2000000), (5, Fin 5000000)]"
  unfolding demo_rows_XYZ
  by (simp add: total_balances_def sum_axis1_def ffill_def pivot_table_def group_sum_def
      wrapper_for_def nansum_def Let_def)

lemma demo_rows_single:
  "demo_rows pr [''Y''] = [make_row (wrapper_for ''Y'') (5, 5, 7, 50, 50, pr)]"
  "demo_rows pr [''Z''] = [make_row (wrapper_for ''Z'') (3, 3, 4, 0, 0, pr)]"
  "demo_rows pr [''Q''] = [make_row (wrapper_for ''Q'') (2, 2, 1, 5, 0, pr)]"
  "demo_rows pr [''X''] = [make_row (wrapper_for ''X'') (1, 1, 10, 100, 1000, pr),
      make_row (wrapper_for ''X'') (5, 5, 20, 200, 1000, pr)]"
  by (simp_all add: demo_rows_def demo_frames)

lemma demo_process_ok:
  "set vs \<subseteq> {''X'', ''Y'', ''Z'', ''Q''} \<Longrightarrow> vs \<noteq> [] \<Longrightarrow>
   process (demo_env pr) (demo_partner vs) = Inr (demo_ledger pr vs, demo_payouts pr vs)"
  unfolding demo_ledger_def demo_payouts_def
  by (rule process_eq_projections)
    (auto simp: demo_partner_def demo_env_def wrapper_for_def)

lemma demo_tiers_rich:
  "map (\<lambda>(b, a). (b, projr (get_tier a))) (total_balances (demo_rows 20000 [''X'', ''Y'', ''Z''])) =
     [(1, 10 / 100), (3, 10 / 100), (5, 15 / 100)]"
  by (simp add: demo_totals_rich get_tier_Fin)

lemma demo_ledger_rich:
  "demo_ledger 20000 [''X'', ''Y'', ''Z''] =
     map (join_tier [(1, 10 / 100), (3, 10 / 100), (5, 15 / 100)])
       [make_row (wrapper_for ''X'') (1, 1, 10, 100, 1000, 20000),
        make_row (wrapper_for ''X'') (5, 5, 20, 200, 1000, 20000),
        make_row (wrapper_for ''Y'') (5, 5, 7, 50, 50, 20000),
        make_row (wrapper_for ''Z'') (3, 3, 4, 0, 0, 20000)]"
  unfolding demo_ledger_eq demo_tiers_rich by (simp only: demo_rows_XYZ)

lemma demo_ledger_rich_values:
  "map (\<lambda>r. (vault r, wrapper r, block r, tier r, payout r)) (demo_ledger 20000 [''X'', ''Y'', ''Z'']) =
     [(''X'', ''WX'', 1, Fin (10 / 100), Fin (65 / 1000)),
      (''X'', ''WX'', 5, Fin (15 / 100), Fin (39 / 100)),
      (''Y'', ''WY'', 5, Fin (15 / 100), Fin (6825 / 10000)),
      (''Z'', ''WZ'', 3, Fin (10 / 100), NaN)]"
  unfolding demo_ledger_rich by (simp add: wrapper_for_def)

lemma demo_payouts_eq:
  "set vs \<subseteq> {''X'', ''Y'', ''Z'', ''Q''} \<Longrightarrow> vs \<noteq> [] \<Longrightarrow>
   demo_payouts pr vs = export_payouts (demo_env pr) (demo_partner vs) (demo_ledger pr vs)"
  using process_Inr[OF demo_process_ok, of vs pr] by blast

lemma demo_payouts_rich:
  "map (\<lambda>q. (po_timestamp q, po_token q, po_amount q)) (demo_payouts 20000 [''X'', ''Y'', ''Z'']) =
     [(0, ''X'', Fin (65 / 1000)), (0, ''Y'', Fin 0), (0, ''Z'', Fin 0),
      (1, ''X'', Fin (39 / 100)), (1, ''Y'', Fin (6825 / 10000)), (1, ''Z'', Fin 0)]"
proof -
  have "demo_payouts 20000 [''X'', ''Y'', ''Z''] =
      export_payouts (demo_env 20000) (demo_partner [''X'', ''Y'', ''Z''])
        (demo_ledger 20000 [''X'', ''Y'', ''Z''])"
    by (rule demo_payouts_eq) simp_all
  then show ?thesis
    unfolding demo_ledger_rich
    by (simp add: export_payouts_def stack_def resample_month_sum_def pivot_table_def
        group_sum_def nansum_def wrapper_for_def demo_env_def Let_def)
qed

lemma demo_ledger_rich_cols:
  "map vault (demo_ledger 20000 [''X'', ''Y'', ''Z'']) = [''X'', ''X'', ''Y'', ''Z'']"
  "map wrapper (demo_ledger 20000 [''X'', ''Y'', ''Z'']) = [''WX'', ''WX'', ''WY'', ''WZ'']"
  "map block (demo_ledger 20000 [''X'', ''Y'', ''Z'']) = [1, 5, 5, 3]"
  "map tier (demo_ledger 20000 [''X'', ''Y'', ''Z'']) =
     [Fin (10 / 100), Fin (15 / 100), Fin (15 / 100), Fin (10 / 100)]"
  "map payout (demo_ledger 20000 [''X'', ''Y'', ''Z'']) =
     [Fin (65 / 1000), Fin (39 / 100), Fin (6825 / 10000), NaN]"
proof -
  let ?L = "demo_ledger 20000 [''X'', ''Y'', ''Z'']"
  let ?f = "\<lambda>r. (vault r, wrapper r, block r, tier r, payout r)"
  have "map vault ?L = map fst (map ?f ?L)"
    "map wrapper ?L = map (\<lambda>x. fst (snd x)) (map ?f ?L)"
    "map block ?L = map (\<lambda>x. fst (snd (snd x))) (map ?f ?L)"
    "map tier ?L = map (\<lambda>x. fst (snd (snd (snd x)))) (map ?f ?L)"
    "map payout ?L = map (\<lambda>x. snd (snd (snd (snd x)))) (map ?f ?L)"
    by (simp_all add: comp_def)
  then show "map vault ?L = [''X'', ''X'', ''Y'', ''Z'']"
    "map wrapper ?L = [''WX'', ''WX'', ''WY'', ''WZ'']"
    "map block ?L = [1, 5, 5, 3]"
    "map tier ?L = [Fin (10 / 100), Fin (15 / 100), Fin (15 / 100), Fin (10 / 100)]"
    "map payout ?L = [Fin (65 / 1000), Fin (39 / 100), Fin (6825 / 10000), NaN]"
    unfolding demo_ledger_rich_values by simp_all
qed

lemma demo_ledger_rich_supply:
  "map total_supply (demo_ledger 20000 [''X'', ''Y'', ''Z'']) = [1000, 1000, 50, 0]"
  "map balance (demo_ledger 20000 [''X'', ''Y'', ''Z'']) = [100, 200, 50, 0]"
  "map share (demo_ledger 20000 [''X'', ''Y'', ''Z'']) = [Fin (1 / 10), Fin (2 / 10), Fin 1, NaN]"
  "map timestamp (demo_ledger 20000 [''X'', ''Y'', ''Z'']) = [1, 5, 5, 3]"
  unfolding demo_ledger_rich by simp_all

lemma demo_payouts_rich_cols:
  "map po_timestamp (demo_payouts 20000 [''X'', ''Y'', ''Z'']) = [0, 0, 0, 1, 1, 1]"
  "map po_token (demo_payouts 20000 [''X'', ''Y'', ''Z'']) =
     [''X'', ''Y'', ''Z'', ''X'', ''Y'', ''Z'']"
  "map po_amount (demo_payouts 20000 [''X'', ''Y'', ''Z'']) =
     [Fin (65 / 1000), Fin 0, Fin 0, Fin (39 / 100), Fin (6825 / 10000), Fin 0]"
proof -
  let ?P = "demo_payouts 20000 [''X'', ''Y'', ''Z'']"
  let ?f = "\<lambda>q. (po_timestamp q, po_token q, po_amount q)"
  have "map po_timestamp ?P = map fst (map ?f ?P)"
    "map po_token ?P = map (\<lambda>x. fst (snd x)) (map ?f ?P)"
    "map po_amount ?P = map (\<lambda>x. snd (snd x)) (map ?f ?P)"
    by (simp_all add: comp_def)
  then show "map po_timestamp ?P = [0, 0, 0, 1, 1, 1]"
    "map po_token ?P = [''X'', ''Y'', ''Z'', ''X'', ''Y'', ''Z'']"
    "map po_amount ?P = [Fin (65 / 1000), Fin 0, Fin 0, Fin (39 / 100), Fin (6825 / 10000), Fin 0]"
    unfolding demo_payouts_rich by simp_all
qed

lemma demo_run_rich:
  "process (demo_env 20000) (demo_partner [''X'', ''Y'', ''Z'']) =
     Inr (demo_ledger 20000 [''X'', ''Y'', ''Z''], demo_payouts 20000 [''X'', ''Y'', ''Z''])"
  by (rule demo_process_ok) simp_all

lemma demo_payouts_Z:
  "map po_timestamp (demo_payouts 1 [''Z'']) = [1]"
  "map po_token (demo_payouts 1 [''Z'']) = [''Z'']"
  "map po_amount (demo_payouts 1 [''Z'']) = [Fin 0]"
proof -
  have eq: "demo_payouts 1 [''Z''] =
      export_payouts (demo_env 1) (demo_partner [''Z'']) (demo_ledger 1 [''Z''])"
    by (rule demo_payouts_eq) simp_all
  show "map po_timestamp (demo_payouts 1 [''Z'']) = [1]"
    "map po_token (demo_payouts 1 [''Z'']) = [''Z'']"
    "map po_amount (demo_payouts 1 [''Z'']) = [Fin 0]"
    unfolding eq demo_ledger_eq demo_rows_single
    by (simp_all add: export_payouts_def stack_def resample_month_sum_def pivot_table_def
        group_sum_def nansum_def wrapper_for_def demo_env_def Let_def)
qed

lemma demo_totals_XY_rich:
  "total_balances (demo_rows 20000 [''X'', ''Y'']) = [(1, Fin 2000000), (5, Fin 5000000)]"
  unfolding demo_rows_XY
  by (simp add: total_balances_def sum_axis1_def ffill_def pivot_table_def group_sum_def
      wrapper_for_def nansum_def Let_def)

lemma demo_ledger_XY_rich:
  "demo_ledger 20000 [''X'', ''Y''] =
     map (join_tier [(1, 10 / 100), (5, 15 / 100)])
       [make_row (wrapper_for ''X'') (1, 1, 10, 100, 1000, 20000),
        make_row (wrapper_for ''X'') (5, 5, 20, 200, 1000, 20000),
        make_row (wrapper_for ''Y'') (5, 5, 7, 50, 50, 20000)]"
proof -
  have "map (\<lambda>(b, a). (b, projr (get_tier a))) (total_balances (demo_rows 20000 [''X'', ''Y''])) =
     [(1, 10 / 100), (5, 15 / 100)]"
    by (simp add: demo_totals_XY_rich get_tier_Fin)
  then show ?thesis
    unfolding demo_ledger_eq by (simp only: demo_rows_XY)
qed

lemma demo_XY_rich_cols:
  "map total_supply (demo_ledger 20000 [''X'', ''Y'']) = [1000, 1000, 50]"
  "map payout (demo_ledger 20000 [''X'', ''Y'']) =
     [Fin (65 / 1000), Fin (39 / 100), Fin (6825 / 10000)]"
  "map po_timestamp (demo_payouts 20000 [''X'', ''Y'']) = [0, 0, 1, 1]"
  "map po_token (demo_payouts 20000 [''X'', ''Y'']) = [''X'', ''Y'', ''X'', ''Y'']"
  "map po_amount (demo_payouts 20000 [''X'', ''Y'']) =
     [Fin (65 / 1000), Fin 0, Fin (39 / 100), Fin (6825 / 10000)]"
proof -
  have eq: "demo_payouts 20000 [''X'', ''Y''] =
      export_payouts (demo_env 20000) (demo_partner [''X'', ''Y'']) (demo_ledger 20000 [''X'', ''Y''])"
    by (rule demo_payouts_eq) simp_all
  show "map total_supply (demo_ledger 20000 [''X'', ''Y'']) = [1000, 1000, 50]"
    "map payout (demo_ledger 20000 [''X'', ''Y'']) =
       [Fin (65 / 1000), Fin (39 / 100), Fin (6825 / 10000)]"
    unfolding demo_ledger_XY_rich by simp_all
  show "map po_timestamp (demo_payouts 20000 [''X'', ''Y'']) = [0, 0, 1, 1]"
    "map po_token (demo_payouts 20000 [''X'', ''Y'']) = [''X'', ''Y'', ''X'', ''Y'']"
    "map po_amount (demo_payouts 20000 [''X'', ''Y'']) =
       [Fin (65 / 1000), Fin 0, Fin (39 / 100), Fin (6825 / 10000)]"
    unfolding eq demo_ledger_XY_rich
    by (simp_all add: export_payouts_def stack_def resample_month_sum_def pivot_table_def
        group_sum_def nansum_def wrapper_for_def demo_env_def Let_def)
qed

section \<open>The claims about the ledger and the export\<close>

subsection \<open>The rows of the ledger\<close>

text \<open>
  C9: every row of the ledger has \<open>share = balance / total_supply\<close> and
  \<open>payout_base = share * protocol_fee * 0.65\<close>, where balance and total supply are the
  contract values at the block of the row, divided by the scale of the vault. With a
  total supply that is not zero the share is the quotient of the two numbers and
  \<open>payout_base\<close> the product \<open>balance / total_supply * protocol_fee * 0.65\<close>; with a
  total supply of zero the float64 division gives NaN for the balance 0 and plus
  infinity for any other, and \<open>payout_base\<close> is not a finite number. A row whose
  wrapper holds the whole supply (\<open>balance = total_supply > 0\<close>) has share 1 and
  \<open>payout_base = protocol_fee * 0.65\<close>.
\<close>

theorem share_and_payout_base:
  "process c p = Inr (ledger, payouts) \<Longrightarrow> r \<in> set ledger \<Longrightarrow>
   balance r = real (balanceOf c (vault r) (wrapper r) (block r)) / real (vault_scale c (vault r)) \<and>
   total_supply r = real (totalSupply c (vault r) (block r)) / real (vault_scale c (vault r)) \<and>
   (total_supply r \<noteq> 0 \<longrightarrow>
      share r = Fin (balance r / total_supply r) \<and>
      payout_base r = Fin (balance r / total_supply r * protocol_fee r * (65 / 100))) \<and>
   (total_supply r = 0 \<longrightarrow>
      share r = (if balance r = 0 then NaN else PInf) \<and> (\<forall>x. payout_base r \<noteq> Fin x)) \<and>
   share r = fdiv (Fin (balance r)) (Fin (total_supply r)) \<and>
   payout_base r = fmul (fmul (share r) (Fin (protocol_fee r))) (Fin (65 / 100)) \<and>
   (balance r = total_supply r \<and> 0 < total_supply r \<longrightarrow>
      share r = Fin 1 \<and> payout_base r = Fin (protocol_fee r * (65 / 100)))"
proof -
  assume run: "process c p = Inr (ledger, payouts)" and r: "r \<in> set ledger"
  from ledger_row_origin(1)[OF run r] obtain w f where
    f: "wrapper_frame c w = Inr f" "wrap_row.truncate r \<in> set f"
    by blast
  from wrapper_frame_Inr(4)[OF f(1)] f(2)
  have facts: "wrapper r = w_wrapper w" "vault r = w_vault w"
    "balance r = real (balanceOf c (w_vault w) (w_wrapper w) (block r)) /
                    real (vault_scale c (w_vault w))"
    "total_supply r = real (totalSupply c (w_vault w) (block r)) /
                    real (vault_scale c (w_vault w))"
    "share r = fdiv (Fin (balance r)) (Fin (total_supply r))"
    "payout_base r = fmul (fmul (share r) (Fin (protocol_fee r))) (Fin (65 / 100))"
    by force+
  have b: "0 \<le> balance r" by (rule nonneg_ledger_row(1)[OF run r])
  have quotient: "share r = Fin (balance r / total_supply r) \<and>
      payout_base r = Fin (balance r / total_supply r * protocol_fee r * (65 / 100))"
    if "total_supply r \<noteq> 0"
  proof -
    from that have "share r = Fin (balance r / total_supply r)" unfolding facts(5) by simp
    then show ?thesis unfolding facts(6) by simp
  qed
  have undefined_share: "share r = (if balance r = 0 then NaN else PInf) \<and>
      (\<forall>x. payout_base r \<noteq> Fin x)"
    if zero: "total_supply r = 0"
  proof -
    have sh: "share r = (if balance r = 0 then NaN else PInf)"
      unfolding facts(5) zero using b by (simp add: inf_of_sign_def)
    then have "\<forall>a. share r \<noteq> Fin a" by simp
    then have "\<forall>a. fmul (share r) (Fin (protocol_fee r)) \<noteq> Fin a"
      by (simp add: fmul_not_finite)
    then have "\<forall>a. payout_base r \<noteq> Fin a"
      unfolding facts(6) by (simp add: fmul_not_finite)
    with sh show ?thesis by simp
  qed
  have full: "share r = Fin 1 \<and> payout_base r = Fin (protocol_fee r * (65 / 100))"
    if "balance r = total_supply r" "0 < total_supply r"
  proof -
    from that have "share r = Fin 1" unfolding facts(5) by simp
    then show ?thesis unfolding facts(6) by simp
  qed
  have origin:
    "balance r = real (balanceOf c (vault r) (wrapper r) (block r)) / real (vault_scale c (vault r))"
    "total_supply r = real (totalSupply c (vault r) (block r)) / real (vault_scale c (vault r))"
    unfolding facts(1,2) by (rule facts(3), rule facts(4))
  from origin facts(5,6) quotient undefined_share full show ?thesis by blast
qed

text \<open>
  Vault X: the wrapper holds 100 of 1000 at block 1, the fee is 10, so the share is 0.1
  and \<open>payout_base\<close> is 0.1 * 10 * 0.65. Vault Y: the wrapper holds the whole supply,
  share 1, \<open>payout_base\<close> 7 * 0.65. Vault Z: balance and supply are 0, share and
  \<open>payout_base\<close> are NaN.
\<close>

theorem share_and_payout_base_witness:
  "process (demo_env 1) (demo_partner [''X'']) = Inr (demo_ledger 1 [''X''], demo_payouts 1 [''X'']) \<and>
   hd (demo_ledger 1 [''X'']) \<in> set (demo_ledger 1 [''X'']) \<and>
   balance (hd (demo_ledger 1 [''X''])) = 100 \<and>
   total_supply (hd (demo_ledger 1 [''X''])) = 1000 \<and>
   protocol_fee (hd (demo_ledger 1 [''X''])) = 10 \<and>
   share (hd (demo_ledger 1 [''X''])) = Fin (1 / 10) \<and>
   payout_base (hd (demo_ledger 1 [''X''])) = Fin (65 / 100) \<and>
   process (demo_env 1) (demo_partner [''Y'']) = Inr (demo_ledger 1 [''Y''], demo_payouts 1 [''Y'']) \<and>
   hd (demo_ledger 1 [''Y'']) \<in> set (demo_ledger 1 [''Y'']) \<and>
   balance (hd (demo_ledger 1 [''Y''])) = 50 \<and>
   total_supply (hd (demo_ledger 1 [''Y''])) = 50 \<and>
   protocol_fee (hd (demo_ledger 1 [''Y''])) = 7 \<and>
   share (hd (demo_ledger 1 [''Y''])) = Fin 1 \<and>
   payout_base (hd (demo_ledger 1 [''Y''])) = Fin (455 / 100) \<and>
   process (demo_env 1) (demo_partner [''Z'']) = Inr (demo_ledger 1 [''Z''], demo_payouts 1 [''Z'']) \<and>
   hd (demo_ledger 1 [''Z'']) \<in> set (demo_ledger 1 [''Z'']) \<and>
   balance (hd (demo_ledger 1 [''Z''])) = 0 \<and>
   total_supply (hd (demo_ledger 1 [''Z''])) = 0 \<and>
   share (hd (demo_ledger 1 [''Z''])) = NaN \<and>
   payout_base (hd (demo_ledger 1 [''Z''])) = NaN"
proof -
  let ?X = "demo_ledger 1 [''X'']"
  let ?Y = "demo_ledger 1 [''Y'']"
  let ?Z = "demo_ledger 1 [''Z'']"
  have runX: "process (demo_env 1) (demo_partner [''X'']) = Inr (?X, demo_payouts 1 [''X''])"
    by (rule demo_process_ok) simp_all
  have memX: "hd ?X \<in> set ?X"
    by (simp add: demo_ledger_eq demo_rows_single)
  have valsX: "balance (hd ?X) = 100" "total_supply (hd ?X) = 1000" "protocol_fee (hd ?X) = 10"
    by (simp_all add: demo_ledger_eq demo_rows_single)
  from share_and_payout_base[OF runX memX] valsX
  have X: "share (hd ?X) = Fin (1 / 10)" "payout_base (hd ?X) = Fin (65 / 100)"
    by simp_all
  have runY: "process (demo_env 1) (demo_partner [''Y'']) = Inr (?Y, demo_payouts 1 [''Y''])"
    by (rule demo_process_ok) simp_all
  have memY: "hd ?Y \<in> set ?Y"
    by (simp add: demo_ledger_eq demo_rows_single)
  have valsY: "balance (hd ?Y) = 50" "total_supply (hd ?Y) = 50" "protocol_fee (hd ?Y) = 7"
    by (simp_all add: demo_ledger_eq demo_rows_single)
  from share_and_payout_base[OF runY memY] valsY
  have Y: "share (hd ?Y) = Fin 1" "payout_base (hd ?Y) = Fin (455 / 100)"
    by simp_all
  have runZ: "process (demo_env 1) (demo_partner [''Z'']) = Inr (?Z, demo_payouts 1 [''Z''])"
    by (rule demo_process_ok) simp_all
  have memZ: "hd ?Z \<in> set ?Z"
    by (simp add: demo_ledger_eq demo_rows_single)
  have valsZ: "balance (hd ?Z) = 0" "total_supply (hd ?Z) = 0"
    by (simp_all add: demo_ledger_eq demo_rows_single)
  from share_and_payout_base[OF runZ memZ] valsZ
  have Z: "share (hd ?Z) = NaN" "payout_base (hd ?Z) = NaN"
    by simp_all
  from runX memX valsX X runY memY valsY Y runZ memZ valsZ Z
  show ?thesis by (intro conjI)
qed

subsection \<open>Rows per wrapper and tiers per block\<close>

text \<open>
  C2: the ledger keeps one row per wrapper and fee block: its length is the sum, over
  the wrappers, of the number of their fee blocks, and every wrapper has a row of its
  own at each of its blocks, whichever other wrappers have one there. Every row gets
  the tier that \<open>get_tier\<close> gives for the cumulative balance of all vaults of the
  partner at the block of the row, so rows of one block have one tier, and
  \<open>payout = payout_base * tier\<close>.
\<close>

theorem ledger_rows_and_tiers:
  "process c p = Inr (ledger, payouts) \<Longrightarrow>
   length ledger =
     sum_list (map (\<lambda>w. length (remdups (map fst (fee_logs c (w_vault w))))) (p_wrappers p)) \<and>
   (\<forall>w\<in>set (p_wrappers p). \<forall>b\<in>set (map fst (fee_logs c (w_vault w))).
      \<exists>r\<in>set ledger. block r = b \<and> wrapper r = w_wrapper w \<and> vault r = w_vault w) \<and>
   (\<forall>r\<in>set ledger.
      \<exists>t. get_tier (Fin (cumulative_balance (map wrap_row.truncate ledger) (block r))) = Inr t \<and>
          tier r = Fin t \<and> payout r = fmul (payout_base r) (Fin t)) \<and>
   (\<forall>r\<in>set ledger. \<forall>r'\<in>set ledger. block r = block r' \<longrightarrow> tier r = tier r')"
proof -
  assume run: "process c p = Inr (ledger, payouts)"
  from process_Inr[OF run] obtain fs where
    fs: "wrapper_frames c (p_wrappers p) = Inr fs"
    and l: "ledger = map (join_tier (map (\<lambda>(b, a). (b, projr (get_tier a)))
                                   (total_balances (concat fs)))) (concat fs)"
    by blast
  from fs have all2: "list_all2 (\<lambda>w f. wrapper_frame c w = Inr f) (p_wrappers p) fs"
    by (simp add: wrapper_frames_Inr_iff)
  have len: "length ledger =
     sum_list (map (\<lambda>w. length (remdups (map fst (fee_logs c (w_vault w))))) (p_wrappers p))"
    using frames_total_length[OF all2] unfolding l by simp
  have ex: "\<exists>r\<in>set ledger. block r = b \<and> wrapper r = w_wrapper w \<and> vault r = w_vault w"
    if w: "w \<in> set (p_wrappers p)" and b: "b \<in> set (map fst (fee_logs c (w_vault w)))" for w b
  proof -
    from list_all2_left_mem[OF all2 w] obtain f where
      f: "f \<in> set fs" "wrapper_frame c w = Inr f" by blast
    from b have "b \<in> set (map block f)"
      by (simp only: wrapper_frame_length(2)[OF f(2)])
    then obtain r0 where r0: "r0 \<in> set f" "block r0 = b" by auto
    with wrapper_frame_Inr(4)[OF f(2)]
    have "wrapper r0 = w_wrapper w" "vault r0 = w_vault w" by auto
    moreover have "join_tier (map (\<lambda>(b, a). (b, projr (get_tier a)))
                                   (total_balances (concat fs))) r0 \<in> set ledger"
      unfolding l using f(1) r0(1) by auto
    ultimately show ?thesis using r0(2) by (intro bexI) auto
  qed
  have tiers: "\<exists>t. get_tier (Fin (cumulative_balance (map wrap_row.truncate ledger) (block r))) = Inr t \<and>
          tier r = Fin t \<and> payout r = fmul (payout_base r) (Fin t)"
    if "r \<in> set ledger" for r
    using ledger_row_origin(2)[OF run that] by blast
  have same: "tier r = tier r'"
    if "r \<in> set ledger" "r' \<in> set ledger" "block r = block r'" for r r'
    using tiers[OF that(1)] tiers[OF that(2)] that(3) by auto
  from len ex tiers same show ?thesis by blast
qed

text \<open>Three wrappers at a price of 20000: the rows of X and Y at block 5 share the tier 0.15 of their combined balance.\<close>

theorem ledger_rows_and_tiers_witness:
  "process (demo_env 20000) (demo_partner [''X'', ''Y'', ''Z'']) =
     Inr (demo_ledger 20000 [''X'', ''Y'', ''Z''], demo_payouts 20000 [''X'', ''Y'', ''Z'']) \<and>
   length (demo_ledger 20000 [''X'', ''Y'', ''Z'']) = 4 \<and>
   map wrapper (demo_ledger 20000 [''X'', ''Y'', ''Z'']) = [''WX'', ''WX'', ''WY'', ''WZ''] \<and>
   map block (demo_ledger 20000 [''X'', ''Y'', ''Z'']) = [1, 5, 5, 3] \<and>
   map tier (demo_ledger 20000 [''X'', ''Y'', ''Z'']) =
     [Fin (10 / 100), Fin (15 / 100), Fin (15 / 100), Fin (10 / 100)] \<and>
   map payout (demo_ledger 20000 [''X'', ''Y'', ''Z'']) =
     [Fin (65 / 1000), Fin (39 / 100), Fin (6825 / 10000), NaN] \<and>
   tier (demo_ledger 20000 [''X'', ''Y'', ''Z''] ! 1) = tier (demo_ledger 20000 [''X'', ''Y'', ''Z''] ! 2)"
proof -
  let ?L = "demo_ledger 20000 [''X'', ''Y'', ''Z'']"
  note facts = ledger_rows_and_tiers[OF demo_run_rich]
  have "sum_list (map (\<lambda>w. length (remdups (map fst (fee_logs (demo_env 20000) (w_vault w)))))
          (p_wrappers (demo_partner [''X'', ''Y'', ''Z'']))) = 4"
    by (simp add: demo_partner_def demo_env_def wrapper_for_def)
  with facts have len: "length ?L = 4" by simp
  have vals: "map wrapper ?L = [''WX'', ''WX'', ''WY'', ''WZ'']" "map block ?L = [1, 5, 5, 3]"
    "map tier ?L = [Fin (10 / 100), Fin (15 / 100), Fin (15 / 100), Fin (10 / 100)]"
    "map payout ?L = [Fin (65 / 1000), Fin (39 / 100), Fin (6825 / 10000), NaN]"
    by (rule demo_ledger_rich_cols)+
  have mem: "?L ! 1 \<in> set ?L" "?L ! 2 \<in> set ?L" "block (?L ! 1) = block (?L ! 2)"
    unfolding demo_ledger_rich by simp_all
  with facts have "tier (?L ! 1) = tier (?L ! 2)" by blast
  with demo_run_rich len vals show ?thesis by simp
qed

subsection \<open>The series of total balances\<close>

text \<open>
  C1, as the code has it: the series of total balances has one entry for every block
  at which the partner has a row: the sum, over the vaults, of the vault's
  \<open>balance_usd\<close> at its last row at or before that block (nothing for a vault with
  no row yet). Rows at later blocks play no part in an entry. With vault X at
  \<open>{1: 100, 5: 200}\<close> and vault Y at \<open>{5: 50}\<close> the series is \<open>{1: 100, 5: 250}\<close>:
  it has no entry at block 3. With a row at block 3 (a third vault Z with balance 0)
  the entry at block 3 is 100, and the entry at block 5 is still 250.
\<close>

theorem total_balances_forward_fill:
  "total_balances rows =
     map (\<lambda>b. (b, Fin (cumulative_balance rows b))) (sort (remdups (map block rows))) \<and>
   cumulative_balance rows b = cumulative_balance (filter (\<lambda>r. block r \<le> b) rows) b \<and>
   total_balances (demo_rows 1 [''X'', ''Y'']) = [(1, Fin 100), (5, Fin 250)] \<and>
   total_balances (demo_rows 1 [''X'', ''Y'', ''Z'']) =
     [(1, Fin 100), (3, Fin 100), (5, Fin 250)]"
  using total_balances_eq[of rows] cumulative_balance_prior[of rows b]
    demo_totals_XY demo_totals_XYZ
  by simp

text \<open>The scenario of C1 with the vaults X and Y only: block 3 has no entry.\<close>

theorem block_without_row_counterexample:
  "map vault (demo_rows 1 [''X'', ''Y'']) = [''X'', ''X'', ''Y''] \<and>
   map block (demo_rows 1 [''X'', ''Y'']) = [1, 5, 5] \<and>
   map balance_usd (demo_rows 1 [''X'', ''Y'']) = [100, 200, 50] \<and>
   total_balances (demo_rows 1 [''X'', ''Y'']) = [(1, Fin 100), (5, Fin 250)] \<and>
   map_of (total_balances (demo_rows 1 [''X'', ''Y''])) 3 = None \<and>
   map_of (total_balances (demo_rows 1 [''X'', ''Y''])) 3 \<noteq> Some (Fin 100)"
  unfolding demo_totals_XY
  by (simp add: demo_rows_XY wrapper_for_def)

subsection \<open>A wrapper without fee events\<close>

text \<open>
  C4, as the code has it: when a wrapper of the partner has no fee events,
  \<open>process\<close> raises and returns no ledger; the wrapper is not skipped and its siblings
  are not aggregated. The error is the ValueError of unpacking the empty \<open>zip\<close>, unless
  a vault that has events has scale 0 (then an earlier division may raise first).
\<close>

theorem empty_wrapper_raises:
  "w \<in> set (p_wrappers p) \<Longrightarrow> fee_logs c (w_vault w) = [] \<Longrightarrow>
   (\<exists>e. process c p = Inl e) \<and>
   ((\<forall>w'\<in>set (p_wrappers p). fee_logs c (w_vault w') \<noteq> [] \<longrightarrow> vault_scale c (w_vault w') \<noteq> 0)
      \<longrightarrow> process c p = Inl ValueError)"
proof -
  assume w: "w \<in> set (p_wrappers p)" and empty: "fee_logs c (w_vault w) = []"
  have "wrapper_frame c w = Inl ValueError"
    using empty by (simp add: wrapper_frame_cases)
  with w have "\<exists>e. wrapper_frames c (p_wrappers p) = Inl e"
    unfolding wrapper_frames_Inl_iff by blast
  then obtain e where e: "wrapper_frames c (p_wrappers p) = Inl e" by blast
  then have run: "process c p = Inl e"
    by (simp add: process_cases)
  have "e = ValueError"
    if ok: "\<forall>w'\<in>set (p_wrappers p). fee_logs c (w_vault w') \<noteq> [] \<longrightarrow> vault_scale c (w_vault w') \<noteq> 0"
  proof -
    from wrapper_frames_Inl[OF e] obtain w' where
      w': "w' \<in> set (p_wrappers p)" "wrapper_frame c w' = Inl e"
      by blast
    with ok show ?thesis
      by (auto simp: wrapper_frame_cases split: if_splits)
  qed
  with run show ?thesis by blast
qed

text \<open>A partner with a wrapper on vault X and one on vault E, which has no fee events.\<close>

theorem empty_wrapper_raises_witness:
  "wrapper_for ''E'' \<in> set (p_wrappers (demo_partner [''X'', ''E''])) \<and>
   fee_logs (demo_env 1) (w_vault (wrapper_for ''E'')) = [] \<and>
   process (demo_env 1) (demo_partner [''X'', ''E'']) = Inl ValueError"
proof -
  have w: "wrapper_for ''E'' \<in> set (p_wrappers (demo_partner [''X'', ''E'']))"
    by (simp add: demo_partner_def)
  have e: "fee_logs (demo_env 1) (w_vault (wrapper_for ''E'')) = []"
    by (simp add: demo_env_def wrapper_for_def)
  have ok: "\<forall>w'\<in>set (p_wrappers (demo_partner [''X'', ''E''])).
      fee_logs (demo_env 1) (w_vault w') \<noteq> [] \<longrightarrow> vault_scale (demo_env 1) (w_vault w') \<noteq> 0"
    by (simp add: demo_env_def)
  from empty_wrapper_raises[OF w e] ok w e show ?thesis by blast
qed

text \<open>The wrapper on E makes the partner raise, before or after its sibling on X, which alone gives two rows.\<close>

theorem empty_wrapper_counterexample:
  "fee_logs (demo_env 1) (w_vault (wrapper_for ''E'')) = [] \<and>
   fee_logs (demo_env 1) (w_vault (wrapper_for ''X'')) = [(1, 10), (5, 20)] \<and>
   process (demo_env 1) (demo_partner [''X'', ''E'']) = Inl ValueError \<and>
   process (demo_env 1) (demo_partner [''E'', ''X'']) = Inl ValueError \<and>
   length (demo_ledger 1 [''X'']) = 2"
  by (simp add: process_cases demo_partner_def demo_frames demo_ledger_eq demo_rows_single)
    (simp add: demo_env_def wrapper_for_def)

subsection \<open>A vault without supply\<close>

text \<open>
  C5, as the code has it: a partner with at least one wrapper, fee events for every
  wrapper and nonzero scales gets a result whatever the supplies are: a zero supply
  raises nothing. In a row with \<open>total_supply = 0\<close> the share is NaN when the
  balance is 0 too, as it is for a token whose balances are bounded by its supply
  (float64 gives plus infinity for any other balance); \<open>payout_base\<close> and \<open>payout\<close>
  of the row are not finite either, and NaN when the balance is 0. These values stay
  in the row of the ledger. They do not reach the export as NaN: every row of the
  ledger has an exported row for its month and vault, and the amount of an exported
  row is never NaN. It is the sum of the payouts, of its month and vault, that are
  not NaN (plus infinity when one of them is), so a NaN payout counts as zero there,
  and the amount is 0 when every row of the month and vault has supply and balance 0.
\<close>

theorem zero_supply_share:
  "p_wrappers p \<noteq> [] \<Longrightarrow>
   \<forall>w\<in>set (p_wrappers p). fee_logs c (w_vault w) \<noteq> [] \<and> vault_scale c (w_vault w) \<noteq> 0 \<Longrightarrow>
   \<exists>ledger payouts. process c p = Inr (ledger, payouts) \<and>
     (\<forall>r\<in>set ledger. total_supply r = 0 \<longrightarrow>
        share r = (if balance r = 0 then NaN else PInf) \<and>
        (\<forall>x. payout_base r \<noteq> Fin x) \<and> (\<forall>x. payout r \<noteq> Fin x) \<and>
        (balance r = 0 \<longrightarrow> payout_base r = NaN \<and> payout r = NaN)) \<and>
     (\<forall>r\<in>set ledger. \<exists>q\<in>set payouts.
        po_timestamp q = month_of c (timestamp r) \<and> po_token q = vault r) \<and>
     (\<forall>q\<in>set payouts.
        po_amount q \<noteq> NaN \<and>
        po_amount q =
          (if \<exists>r\<in>set ledger. month_of c (timestamp r) = po_timestamp q \<and>
                 vault r = po_token q \<and> payout r = PInf
           then PInf
           else Fin (sum_list (map (\<lambda>r. fin_part (payout r))
                  (filter (\<lambda>r. month_of c (timestamp r) = po_timestamp q \<and>
                             vault r = po_token q \<and> payout r \<noteq> NaN) ledger)))) \<and>
        ((\<forall>r\<in>set ledger. month_of c (timestamp r) = po_timestamp q \<and> vault r = po_token q \<longrightarrow>
              total_supply r = 0 \<and> balance r = 0) \<longrightarrow>
           po_amount q = Fin 0))"
proof -
  assume "p_wrappers p \<noteq> []"
    and "\<forall>w\<in>set (p_wrappers p). fee_logs c (w_vault w) \<noteq> [] \<and> vault_scale c (w_vault w) \<noteq> 0"
  then obtain ledger payouts where run: "process c p = Inr (ledger, payouts)"
    using process_succeeds_iff[of c p] by auto
  have nn: "\<forall>r\<in>set ledger. nonneg_fl (payout r)"
    using nonneg_ledger_row(7)[OF run] by blast
  from process_Inr[OF run] have po: "payouts = export_payouts c p ledger" by blast
  have row: "share r = (if balance r = 0 then NaN else PInf) \<and>
        (\<forall>x. payout_base r \<noteq> Fin x) \<and> (\<forall>x. payout r \<noteq> Fin x) \<and>
        (balance r = 0 \<longrightarrow> payout_base r = NaN \<and> payout r = NaN)"
    if r: "r \<in> set ledger" and zero: "total_supply r = 0" for r
  proof -
    have sh: "share r = fdiv (Fin (balance r)) (Fin (total_supply r))"
      and pb: "payout_base r = fmul (fmul (share r) (Fin (protocol_fee r))) (Fin (65 / 100))"
      using row_share_and_base[OF run r] by simp_all
    from ledger_row_origin(2)[OF run r] obtain t where
      t: "payout r = fmul (payout_base r) (Fin t)" by blast
    have b: "0 \<le> balance r" by (rule nonneg_ledger_row(1)[OF run r])
    have share: "share r = (if balance r = 0 then NaN else PInf)"
      unfolding sh zero using b by (simp add: inf_of_sign_def)
    have "\<forall>a. share r \<noteq> Fin a" unfolding share by simp
    then have "\<forall>a. fmul (share r) (Fin (protocol_fee r)) \<noteq> Fin a"
      by (simp add: fmul_not_finite)
    then have pbn: "\<forall>a. payout_base r \<noteq> Fin a"
      unfolding pb by (simp add: fmul_not_finite)
    then have pn: "\<forall>a. payout r \<noteq> Fin a"
      unfolding t by (simp add: fmul_not_finite)
    have "payout_base r = NaN \<and> payout r = NaN" if "balance r = 0"
      unfolding t pb share using that by simp
    with share pbn pn show ?thesis by auto
  qed
  have covered: "\<exists>q\<in>set payouts. po_timestamp q = month_of c (timestamp r) \<and> po_token q = vault r"
    if "r \<in> set ledger" for r
    using export_covers_ledger[OF run that] .
  have amount: "po_amount q = monthly_amount (month_of c) ledger (po_timestamp q) (po_token q)"
    if "q \<in> set payouts" for q
    using that unfolding po export_payouts_eq[OF nn] by auto
  have exported: "po_amount q \<noteq> NaN \<and>
        po_amount q =
          (if \<exists>r\<in>set ledger. month_of c (timestamp r) = po_timestamp q \<and>
                 vault r = po_token q \<and> payout r = PInf
           then PInf
           else Fin (sum_list (map (\<lambda>r. fin_part (payout r))
                  (filter (\<lambda>r. month_of c (timestamp r) = po_timestamp q \<and>
                             vault r = po_token q \<and> payout r \<noteq> NaN) ledger)))) \<and>
        ((\<forall>r\<in>set ledger. month_of c (timestamp r) = po_timestamp q \<and> vault r = po_token q \<longrightarrow>
              total_supply r = 0 \<and> balance r = 0) \<longrightarrow>
           po_amount q = Fin 0)"
    if q: "q \<in> set payouts" for q
  proof -
    let ?in = "\<lambda>r. month_of c (timestamp r) = po_timestamp q \<and> vault r = po_token q"
    have explicit: "po_amount q =
          (if \<exists>r\<in>set ledger. month_of c (timestamp r) = po_timestamp q \<and>
                 vault r = po_token q \<and> payout r = PInf
           then PInf
           else Fin (sum_list (map (\<lambda>r. fin_part (payout r))
                  (filter (\<lambda>r. month_of c (timestamp r) = po_timestamp q \<and>
                             vault r = po_token q \<and> payout r \<noteq> NaN) ledger))))"
      unfolding amount[OF q] by (rule monthly_amount_explicit[OF nn])
    have "po_amount q \<noteq> NaN"
      unfolding explicit by simp
    moreover have "po_amount q = Fin 0"
      if all: "\<forall>r\<in>set ledger. ?in r \<longrightarrow> total_supply r = 0 \<and> balance r = 0"
    proof -
      have nan: "payout r = NaN" if "r \<in> set ledger" "?in r" for r
        using row[of r] all that by blast
      then have "\<not> (\<exists>r\<in>set ledger. month_of c (timestamp r) = po_timestamp q \<and>
                 vault r = po_token q \<and> payout r = PInf)"
        by force
      moreover have "filter (\<lambda>r. month_of c (timestamp r) = po_timestamp q \<and>
                             vault r = po_token q \<and> payout r \<noteq> NaN) ledger = []"
        using nan by (auto simp: filter_empty_conv)
      ultimately show ?thesis
        unfolding explicit by simp
    qed
    ultimately show ?thesis using explicit by blast
  qed
  from run row covered exported show ?thesis by blast
qed

text \<open>
  Vaults X, Y and Z at the price 20000: the last row of the ledger is the row of vault
  Z at time 3, with supply and balance 0; its share, \<open>payout_base\<close> and \<open>payout\<close> are
  NaN. It is the only row of month 1 and vault Z, and the exported row of month 1 and
  vault Z, the last one, has the amount 0.
\<close>

theorem zero_supply_share_witness:
  "p_wrappers (demo_partner [''X'', ''Y'', ''Z'']) \<noteq> [] \<and>
   list_all (\<lambda>w. fee_logs (demo_env 20000) (w_vault w) \<noteq> [] \<and>
                 vault_scale (demo_env 20000) (w_vault w) \<noteq> 0)
     (p_wrappers (demo_partner [''X'', ''Y'', ''Z''])) \<and>
   process (demo_env 20000) (demo_partner [''X'', ''Y'', ''Z'']) =
     Inr (demo_ledger 20000 [''X'', ''Y'', ''Z''], demo_payouts 20000 [''X'', ''Y'', ''Z'']) \<and>
   map vault (demo_ledger 20000 [''X'', ''Y'', ''Z'']) = [''X'', ''X'', ''Y'', ''Z''] \<and>
   map timestamp (demo_ledger 20000 [''X'', ''Y'', ''Z'']) = [1, 5, 5, 3] \<and>
   map total_supply (demo_ledger 20000 [''X'', ''Y'', ''Z'']) = [1000, 1000, 50, 0] \<and>
   map balance (demo_ledger 20000 [''X'', ''Y'', ''Z'']) = [100, 200, 50, 0] \<and>
   share (last (demo_ledger 20000 [''X'', ''Y'', ''Z''])) = NaN \<and>
   payout_base (last (demo_ledger 20000 [''X'', ''Y'', ''Z''])) = NaN \<and>
   payout (last (demo_ledger 20000 [''X'', ''Y'', ''Z''])) = NaN \<and>
   po_timestamp (last (demo_payouts 20000 [''X'', ''Y'', ''Z''])) = 1 \<and>
   po_token (last (demo_payouts 20000 [''X'', ''Y'', ''Z''])) = ''Z'' \<and>
   po_amount (last (demo_payouts 20000 [''X'', ''Y'', ''Z''])) = Fin 0"
proof -
  let ?p = "demo_partner [''X'', ''Y'', ''Z'']"
  let ?L = "demo_ledger 20000 [''X'', ''Y'', ''Z'']"
  let ?P = "demo_payouts 20000 [''X'', ''Y'', ''Z'']"
  have h1: "p_wrappers ?p \<noteq> []"
    by (simp add: demo_partner_def)
  have h2: "\<forall>w\<in>set (p_wrappers ?p).
      fee_logs (demo_env 20000) (w_vault w) \<noteq> [] \<and> vault_scale (demo_env 20000) (w_vault w) \<noteq> 0"
    by (simp add: demo_partner_def demo_env_def wrapper_for_def)
  note run = demo_run_rich
  have r: "last ?L \<in> set ?L" "total_supply (last ?L) = 0" "balance (last ?L) = 0"
    unfolding demo_ledger_rich by simp_all
  have ne: "?P \<noteq> []"
    using demo_payouts_rich_cols(1) by auto
  then have q: "last ?P \<in> set ?P" by simp
  have "po_timestamp (last ?P) = last (map po_timestamp ?P)"
    "po_token (last ?P) = last (map po_token ?P)"
    using ne by (simp_all add: last_map)
  then have key: "po_timestamp (last ?P) = 1" "po_token (last ?P) = ''Z''"
    unfolding demo_payouts_rich_cols by simp_all
  have group: "\<forall>r\<in>set ?L. month_of (demo_env 20000) (timestamp r) = po_timestamp (last ?P) \<and>
      vault r = po_token (last ?P) \<longrightarrow> total_supply r = 0 \<and> balance r = 0"
    unfolding key demo_ledger_rich by (simp add: wrapper_for_def)
  from zero_supply_share[OF h1 h2] run r q group
  have "share (last ?L) = NaN \<and> payout_base (last ?L) = NaN \<and> payout (last ?L) = NaN \<and>
      po_amount (last ?P) = Fin 0"
    by auto
  with h1 h2 run key demo_ledger_rich_cols(1) demo_ledger_rich_supply show ?thesis
    by (simp add: list_all_iff)
qed

text \<open>
  Vault Z alone: the one row of the ledger has supply 0, its share and payout are NaN,
  and the one exported row has the amount 0: the NaN of the ledger is exported as zero.
\<close>

theorem nan_payout_exported_as_zero_counterexample:
  "process (demo_env 1) (demo_partner [''Z'']) =
     Inr (demo_ledger 1 [''Z''], demo_payouts 1 [''Z'']) \<and>
   map total_supply (demo_ledger 1 [''Z'']) = [0] \<and>
   map balance (demo_ledger 1 [''Z'']) = [0] \<and>
   map share (demo_ledger 1 [''Z'']) = [NaN] \<and>
   map payout_base (demo_ledger 1 [''Z'']) = [NaN] \<and>
   map payout (demo_ledger 1 [''Z'']) = [NaN] \<and>
   map po_timestamp (demo_payouts 1 [''Z'']) = [1] \<and>
   map po_token (demo_payouts 1 [''Z'']) = [''Z''] \<and>
   map po_amount (demo_payouts 1 [''Z'']) = [Fin 0]"
proof -
  have run: "process (demo_env 1) (demo_partner [''Z'']) =
     Inr (demo_ledger 1 [''Z''], demo_payouts 1 [''Z''])"
    by (rule demo_process_ok) simp_all
  have "map total_supply (demo_ledger 1 [''Z'']) = [0]"
    "map balance (demo_ledger 1 [''Z'']) = [0]"
    "map share (demo_ledger 1 [''Z'']) = [NaN]"
    "map payout_base (demo_ledger 1 [''Z'']) = [NaN]"
    "map payout (demo_ledger 1 [''Z'']) = [NaN]"
    by (simp_all add: demo_ledger_eq demo_rows_single)
  with run demo_payouts_Z show ?thesis by (intro conjI)
qed

subsection \<open>The keys of the exported rows\<close>

text \<open>
  C6, as the code has it: no two exported rows have the same (month, token). There is
  exactly one row for every month from the first to the last month of the ledger and
  every vault of the ledger, in this order, also for a month and vault with no fee
  event or a zero sum: its amount is the sum of the payouts of the ledger rows of
  that month and vault, which is 0 when there are none, and never NaN.
\<close>

theorem payouts_keys:
  "process c p = Inr (ledger, payouts) \<Longrightarrow>
   distinct (map (\<lambda>q. (po_timestamp q, po_token q)) payouts) \<and>
   map (\<lambda>q. (po_timestamp q, po_token q)) payouts =
     List.product (month_bins (month_of c) ledger) (sort (remdups (map vault ledger))) \<and>
   (\<forall>q\<in>set payouts.
      po_amount q = monthly_amount (month_of c) ledger (po_timestamp q) (po_token q) \<and>
      po_amount q \<noteq> NaN \<and> po_partner q = p_name p \<and> po_treasury q = p_treasury p)"
proof -
  assume run: "process c p = Inr (ledger, payouts)"
  have nn: "\<forall>r\<in>set ledger. nonneg_fl (payout r)"
    using nonneg_ledger_row(7)[OF run] by blast
  from process_Inr[OF run] have po: "payouts = export_payouts c p ledger" by blast
  have keys: "map (\<lambda>q. (po_timestamp q, po_token q)) payouts =
     List.product (month_bins (month_of c) ledger) (sort (remdups (map vault ledger)))"
    unfolding po export_payouts_eq[OF nn]
    by (simp add: comp_def case_prod_unfold)
  have "distinct (List.product (month_bins (month_of c) ledger) (sort (remdups (map vault ledger))))"
    by (rule distinct_product) (simp_all add: month_bins_def)
  then have d: "distinct (map (\<lambda>q. (po_timestamp q, po_token q)) payouts)"
    by (simp only: keys)
  have rows: "\<forall>q\<in>set payouts.
      po_amount q = monthly_amount (month_of c) ledger (po_timestamp q) (po_token q) \<and>
      po_amount q \<noteq> NaN \<and> po_partner q = p_name p \<and> po_treasury q = p_treasury p"
    unfolding po export_payouts_eq[OF nn]
    by (auto simp: monthly_amount_not_NaN(1)[OF nn])
  from d keys rows show ?thesis by blast
qed

text \<open>The same run: two months, three vaults, six rows with distinct keys.\<close>

theorem payouts_keys_witness:
  "process (demo_env 20000) (demo_partner [''X'', ''Y'', ''Z'']) =
     Inr (demo_ledger 20000 [''X'', ''Y'', ''Z''], demo_payouts 20000 [''X'', ''Y'', ''Z'']) \<and>
   distinct (map (\<lambda>q. (po_timestamp q, po_token q)) (demo_payouts 20000 [''X'', ''Y'', ''Z''])) \<and>
   map po_timestamp (demo_payouts 20000 [''X'', ''Y'', ''Z'']) = [0, 0, 0, 1, 1, 1] \<and>
   map po_token (demo_payouts 20000 [''X'', ''Y'', ''Z'']) =
     [''X'', ''Y'', ''Z'', ''X'', ''Y'', ''Z'']"
proof -
  let ?P = "demo_payouts 20000 [''X'', ''Y'', ''Z'']"
  from payouts_keys[OF demo_run_rich]
  have d: "distinct (map (\<lambda>q. (po_timestamp q, po_token q)) ?P)" by blast
  have "map po_timestamp ?P = [0, 0, 0, 1, 1, 1]"
    "map po_token ?P = [''X'', ''Y'', ''Z'', ''X'', ''Y'', ''Z'']"
    by (rule demo_payouts_rich_cols)+
  with demo_run_rich d show ?thesis by simp
qed

text \<open>The same run: the rows (0, Y), (0, Z) and (1, Z) are exported with amount 0.\<close>

theorem zero_amount_rows_counterexample:
  "map block (demo_ledger 20000 [''X'', ''Y'', ''Z'']) = [1, 5, 5, 3] \<and>
   map vault (demo_ledger 20000 [''X'', ''Y'', ''Z'']) = [''X'', ''X'', ''Y'', ''Z''] \<and>
   map payout (demo_ledger 20000 [''X'', ''Y'', ''Z'']) =
     [Fin (65 / 1000), Fin (39 / 100), Fin (6825 / 10000), NaN] \<and>
   map po_timestamp (demo_payouts 20000 [''X'', ''Y'', ''Z'']) = [0, 0, 0, 1, 1, 1] \<and>
   map po_token (demo_payouts 20000 [''X'', ''Y'', ''Z'']) =
     [''X'', ''Y'', ''Z'', ''X'', ''Y'', ''Z''] \<and>
   map po_amount (demo_payouts 20000 [''X'', ''Y'', ''Z'']) =
     [Fin (65 / 1000), Fin 0, Fin 0, Fin (39 / 100), Fin (6825 / 10000), Fin 0]"
  by (simp only: demo_payouts_rich_cols demo_ledger_rich_cols simp_thms)

subsection \<open>Conservation of the payouts\<close>

text \<open>
  C7: the sum of the exported amounts is the sum of the payouts of the ledger, both
  taken as pandas sums them (NaN entries skipped). When no row has a zero supply, all
  values are finite and this is the equation of two sums of real numbers. The
  arithmetic is exact here, so nothing is left of the floating-point tolerance.
\<close>

theorem payouts_conserve:
  "process c p = Inr (ledger, payouts) \<Longrightarrow>
   nansum (map po_amount payouts) = nansum (map payout ledger) \<and>
   ((\<forall>r\<in>set ledger. total_supply r \<noteq> 0) \<longrightarrow>
      map po_amount payouts = map (\<lambda>q. Fin (fin_part (po_amount q))) payouts \<and>
      map payout ledger = map (\<lambda>r. Fin (fin_part (payout r))) ledger \<and>
      sum_list (map (\<lambda>q. fin_part (po_amount q)) payouts) =
        sum_list (map (\<lambda>r. fin_part (payout r)) ledger))"
proof -
  assume run: "process c p = Inr (ledger, payouts)"
  have nn: "\<forall>r\<in>set ledger. nonneg_fl (payout r)"
    using nonneg_ledger_row(7)[OF run] by blast
  from process_Inr[OF run] have po: "payouts = export_payouts c p ledger" by blast
  have total: "nansum (map po_amount payouts) = nansum (map payout ledger)"
    unfolding po by (rule ledger_payout_sum[OF nn])
  have finite_case: "map po_amount payouts = map (\<lambda>q. Fin (fin_part (po_amount q))) payouts \<and>
      map payout ledger = map (\<lambda>r. Fin (fin_part (payout r))) ledger \<and>
      sum_list (map (\<lambda>q. fin_part (po_amount q)) payouts) =
        sum_list (map (\<lambda>r. fin_part (payout r)) ledger)"
    if pos: "\<forall>r\<in>set ledger. total_supply r \<noteq> 0"
  proof -
    have fin: "\<exists>x. payout r = Fin x" if r: "r \<in> set ledger" for r
    proof -
      from ledger_row_origin(2)[OF run r] obtain t where
        t: "payout r = fmul (payout_base r) (Fin t)" by blast
      from pos r have "total_supply r \<noteq> 0" by blast
      then show ?thesis
        unfolding t row_share_and_base(2)[OF run r] row_share_and_base(1)[OF run r]
        by simp
    qed
    then have l: "map payout ledger = map (\<lambda>r. Fin (fin_part (payout r))) ledger"
      by (intro map_cong[OF refl]) (metis fin_part.simps(1))
    have amount: "\<exists>x. po_amount q = Fin x" if q: "q \<in> set payouts" for q
    proof -
      from q obtain m v where "po_amount q = monthly_amount (month_of c) ledger m v"
        unfolding po export_payouts_eq[OF nn] by auto
      moreover have "\<exists>x. monthly_amount (month_of c) ledger m v = Fin x"
      proof -
        let ?g = "filter (\<lambda>r. month_of c (timestamp r) = m \<and> vault r = v) ledger"
        have "map payout ?g = map (\<lambda>r. Fin (fin_part (payout r))) ?g"
          by (intro map_cong[OF refl]) (use fin in fastforce)
        then show ?thesis
          unfolding monthly_amount_def by (simp only: nansum_map_Fin) blast
      qed
      ultimately show ?thesis by simp
    qed
    then have a: "map po_amount payouts = map (\<lambda>q. Fin (fin_part (po_amount q))) payouts"
      by (intro map_cong[OF refl]) (metis fin_part.simps(1))
    have "nansum (map po_amount payouts) =
        Fin (sum_list (map (\<lambda>q. fin_part (po_amount q)) payouts))"
      by (subst a) (rule nansum_map_Fin)
    moreover have "nansum (map payout ledger) =
        Fin (sum_list (map (\<lambda>r. fin_part (payout r)) ledger))"
      by (subst l) (rule nansum_map_Fin)
    ultimately have "sum_list (map (\<lambda>q. fin_part (po_amount q)) payouts) =
        sum_list (map (\<lambda>r. fin_part (payout r)) ledger)"
      using total by simp
    with l a show ?thesis by blast
  qed
  from total finite_case show ?thesis by blast
qed

text \<open>
  The same run: both sums are 1.1375, the NaN payout of vault Z skipped on both sides.
  Without vault Z no supply is zero and the sums are sums of finite numbers.
\<close>

theorem payouts_conserve_witness:
  "process (demo_env 20000) (demo_partner [''X'', ''Y'', ''Z'']) =
     Inr (demo_ledger 20000 [''X'', ''Y'', ''Z''], demo_payouts 20000 [''X'', ''Y'', ''Z'']) \<and>
   nansum (map po_amount (demo_payouts 20000 [''X'', ''Y'', ''Z''])) =
     nansum (map payout (demo_ledger 20000 [''X'', ''Y'', ''Z''])) \<and>
   nansum (map payout (demo_ledger 20000 [''X'', ''Y'', ''Z''])) = Fin (11375 / 10000) \<and>
   process (demo_env 20000) (demo_partner [''X'', ''Y'']) =
     Inr (demo_ledger 20000 [''X'', ''Y''], demo_payouts 20000 [''X'', ''Y'']) \<and>
   map total_supply (demo_ledger 20000 [''X'', ''Y'']) = [1000, 1000, 50] \<and>
   sum_list (map (\<lambda>q. fin_part (po_amount q)) (demo_payouts 20000 [''X'', ''Y''])) =
     sum_list (map (\<lambda>r. fin_part (payout r)) (demo_ledger 20000 [''X'', ''Y''])) \<and>
   map po_amount (demo_payouts 20000 [''X'', ''Y'']) =
     [Fin (65 / 1000), Fin 0, Fin (39 / 100), Fin (6825 / 10000)] \<and>
   map payout (demo_ledger 20000 [''X'', ''Y'']) =
     [Fin (65 / 1000), Fin (39 / 100), Fin (6825 / 10000)]"
proof -
  let ?L = "demo_ledger 20000 [''X'', ''Y'', ''Z'']"
  let ?L2 = "demo_ledger 20000 [''X'', ''Y'']"
  have "nansum (map payout ?L) = nansum [Fin (65 / 1000), Fin (39 / 100), Fin (6825 / 10000), NaN]"
    by (simp only: demo_ledger_rich_cols)
  also have "\<dots> = Fin (11375 / 10000)"
    by (simp add: nansum_def)
  finally have total: "nansum (map payout ?L) = Fin (11375 / 10000)" .
  have run: "process (demo_env 20000) (demo_partner [''X'', ''Y'']) =
     Inr (?L2, demo_payouts 20000 [''X'', ''Y''])"
    by (rule demo_process_ok) simp_all
  have pos: "\<forall>r\<in>set ?L2. total_supply r \<noteq> 0"
  proof
    fix r assume "r \<in> set ?L2"
    then have "total_supply r \<in> total_supply ` set ?L2" by (rule imageI)
    also have "total_supply ` set ?L2 = set (map total_supply ?L2)" by simp
    also have "\<dots> = {1000, 50}" by (simp only: demo_XY_rich_cols) simp
    finally show "total_supply r \<noteq> 0" by auto
  qed
  from payouts_conserve[OF run] pos
  have sums: "sum_list (map (\<lambda>q. fin_part (po_amount q)) (demo_payouts 20000 [''X'', ''Y''])) =
     sum_list (map (\<lambda>r. fin_part (payout r)) ?L2)"
    by blast
  from payouts_conserve[OF demo_run_rich]
  have nsum: "nansum (map po_amount (demo_payouts 20000 [''X'', ''Y'', ''Z''])) =
     nansum (map payout ?L)"
    by blast
  note cols = demo_XY_rich_cols(1) demo_XY_rich_cols(5) demo_XY_rich_cols(2)
  from demo_run_rich nsum total run cols(1) sums cols(2) cols(3)
  show ?thesis by (intro conjI)
qed

end
